theory Spec2Isabelle
  imports Main "HOL-Library.Word" "HOL-Library.Sublist" "HOL-Library.Multiset"
begin

unbundle bit_operations_syntax

section \<open>Paths, file status and the two directory trees\<close>

text \<open>
  A path is the list of its components. Below the two roots every path is written
  relative to its root; \<open>source\<close> and \<open>destination\<close> are the component lists of the
  two root paths handed to \<open>synchronize\<close>, so that \<open>source @ rel\<close> is the full path of
  a source entry (\<open>entry.path()\<close> in the code).
\<close>

type_synonym path = "string list"

text \<open>
  \<open>struct stat\<close> as \<open>lstat(2)\<close> fills it. Signed fields (\<open>time_t\<close>, \<open>off_t\<close>,
  \<open>tv_nsec\<close>) are kept as their 64-bit two's complement image, which is what the
  \<open>static_cast<std::uint64_t>\<close> of \<open>collect_metadata\<close> reads.
\<close>

record stat =
  st_dev :: "64 word"
  st_ino :: "64 word"
  st_mode :: "32 word"
  st_uid :: "32 word"
  st_gid :: "32 word"
  st_size :: "64 word"
  st_atime :: "64 word"
  st_atime_nsec :: "64 word"
  st_mtime :: "64 word"
  st_mtime_nsec :: "64 word"
  st_ctime :: "64 word"
  st_ctime_nsec :: "64 word"

text \<open>The file type bits of \<open>st_mode\<close> and the tests of \<open><sys/stat.h>\<close>.\<close>

definition S_IFMT :: "32 word" where "S_IFMT = 0xF000"
definition S_IFDIR :: "32 word" where "S_IFDIR = 0x4000"
definition S_IFREG :: "32 word" where "S_IFREG = 0x8000"
definition S_IFLNK :: "32 word" where "S_IFLNK = 0xA000"

definition S_ISDIR :: "32 word \<Rightarrow> bool" where
  "S_ISDIR m \<longleftrightarrow> m AND S_IFMT = S_IFDIR"

definition S_ISREG :: "32 word \<Rightarrow> bool" where
  "S_ISREG m \<longleftrightarrow> m AND S_IFMT = S_IFREG"

definition S_ISLNK :: "32 word \<Rightarrow> bool" where
  "S_ISLNK m \<longleftrightarrow> m AND S_IFMT = S_IFLNK"

text \<open>
  An object of the file system as a path reaches it: \<open>lst\<close> is what \<open>lstat\<close> reports
  (the object itself), \<open>tgt\<close> is what \<open>stat\<close> reports when the object is a symbolic
  link (the object the link resolves to, \<open>None\<close> when it resolves to none: a dangling
  link, or one that \<open>stat\<close> fails to resolve). Link targets lie outside the two trees.
\<close>

record fobj =
  lst :: stat
  tgt :: "stat option"

definition follow :: "fobj \<Rightarrow> stat option" where
  "follow n = (if S_ISLNK (st_mode (lst n)) then tgt n else Some (lst n))"

text \<open>
  The source is only read, by \<open>recursive_directory_iterator\<close> and by \<open>fs::exists\<close>: it is
  a tree, each node with its name, its object and its entries in directory order.
  A node under a symbolic link is what a path through the link reaches.
\<close>

datatype tree = Node (t_name: string) (t_obj: fobj) (t_kids: "tree list")

fun t_find :: "tree list \<Rightarrow> string \<Rightarrow> tree option" where
  "t_find [] x = None"
| "t_find (t # ts) x = (if t_name t = x then Some t else t_find ts x)"

definition obj_is_directory :: "fobj \<Rightarrow> bool" where
  "obj_is_directory n \<longleftrightarrow> (case follow n of None \<Rightarrow> False | Some s \<Rightarrow> S_ISDIR (st_mode s))"

text \<open>Path resolution below a node: every component but the last must be a directory.\<close>

fun t_lookup :: "tree \<Rightarrow> path \<Rightarrow> fobj option" where
  "t_lookup t [] = Some (t_obj t)"
| "t_lookup t (x # p) =
     (if obj_is_directory (t_obj t)
      then (case t_find (t_kids t) x of None \<Rightarrow> None | Some c \<Rightarrow> t_lookup c p)
      else None)"

text \<open>
  The destination is addressed by path and changed in place: it is the finite listing
  of the paths below (and including, as \<open>[]\<close>) the destination root with the object
  each one reaches.
\<close>

type_synonym fs = "(path \<times> fobj) list"

definition status :: "fs \<Rightarrow> path \<Rightarrow> stat option" where
  "status d p = (case map_of d p of None \<Rightarrow> None | Some n \<Rightarrow> follow n)"

definition fs_exists :: "fs \<Rightarrow> path \<Rightarrow> bool" where
  "fs_exists d p \<longleftrightarrow> status d p \<noteq> None"

definition fs_is_directory :: "fs \<Rightarrow> path \<Rightarrow> bool" where
  "fs_is_directory d p \<longleftrightarrow> (case status d p of None \<Rightarrow> False | Some s \<Rightarrow> S_ISDIR (st_mode s))"

definition fs_is_regular_file :: "fs \<Rightarrow> path \<Rightarrow> bool" where
  "fs_is_regular_file d p \<longleftrightarrow> (case status d p of None \<Rightarrow> False | Some s \<Rightarrow> S_ISREG (st_mode s))"

definition src_exists :: "tree \<Rightarrow> path \<Rightarrow> bool" where
  "src_exists t p \<longleftrightarrow> (case t_lookup t p of None \<Rightarrow> False | Some n \<Rightarrow> follow n \<noteq> None)"

text \<open>
  What the environment decides: which calls fail for a reason the trees do not show
  (permissions, races), and the attributes the system gives to an object it creates or
  writes at a destination path (inode number, owner, time stamps). The calls that can
  fail are \<open>lstat\<close>, \<open>fs::relative\<close>, \<open>fs::create_directories\<close>, \<open>fs::copy_file\<close>,
  \<open>fs::remove\<close>, \<open>fs::remove_all\<close> and the status queries (\<open>fs::exists\<close>,
  \<open>fs::is_directory\<close>, \<open>fs::is_regular_file\<close>, \<open>entry.is_directory()\<close>). For a status
  query the environment says where \<open>stat\<close> fails with an error other than "not
  found" (\<open>EACCES\<close>, \<open>ELOOP\<close>). The two iterators are taken not to throw.
\<close>

record env =
  src_lstat_fails :: "path \<Rightarrow> bool"
  dst_lstat_fails :: "path \<Rightarrow> bool"
  src_relative_fails :: "path \<Rightarrow> bool"
  dst_relative_fails :: "path \<Rightarrow> bool"
  src_status_fails :: "path \<Rightarrow> bool"
  dst_status_fails :: "path \<Rightarrow> bool"
  mkdir_fails :: "path \<Rightarrow> bool"
  copy_fails :: "path \<Rightarrow> bool"
  remove_fails :: "path \<Rightarrow> bool"
  fresh_stat :: "path \<Rightarrow> stat"

definition src_lstat :: "env \<Rightarrow> path \<Rightarrow> fobj \<Rightarrow> stat option" where
  "src_lstat E rel n = (if src_lstat_fails E rel then None else Some (lst n))"

definition dst_lstat :: "env \<Rightarrow> fs \<Rightarrow> path \<Rightarrow> stat option" where
  "dst_lstat E d rel = (if dst_lstat_fails E rel then None else map_option lst (map_of d rel))"

subsection \<open>Operations of \<open>std::filesystem\<close> on the destination\<close>

definition set_type :: "32 word \<Rightarrow> 32 word \<Rightarrow> 32 word" where
  "set_type t m = (m AND NOT S_IFMT) OR t"

definition new_dir :: "env \<Rightarrow> path \<Rightarrow> fobj" where
  "new_dir E p =
     \<lparr>lst = (fresh_stat E p)\<lparr>st_mode := set_type S_IFDIR (st_mode (fresh_stat E p))\<rparr>,
      tgt = None\<rparr>"

text \<open>
  \<open>fs::create_directories\<close>: every missing prefix of the path is created, shortest
  first; a prefix that exists and is not a directory (through a link or not), or a
  dangling link, makes the call throw (\<open>None\<close>).
\<close>

fun mkdirs :: "env \<Rightarrow> path list \<Rightarrow> fs \<Rightarrow> fs option" where
  "mkdirs E [] d = Some d"
| "mkdirs E (q # qs) d =
     (case map_of d q of
        None \<Rightarrow> mkdirs E qs (d @ [(q, new_dir E q)])
      | Some n \<Rightarrow> if obj_is_directory n then mkdirs E qs d else None)"

definition create_directories :: "env \<Rightarrow> path \<Rightarrow> fs \<Rightarrow> fs option" where
  "create_directories E p d = (if mkdir_fails E p then None else mkdirs E (prefixes p) d)"

text \<open>
  \<open>fs::copy_file\<close> with \<open>overwrite_existing\<close>, from a source object with status \<open>s\<close>:
  the destination is opened through a symbolic link if there is one, created if it is
  missing, and gets the size and mode of the source and the time of the write.
\<close>

definition written :: "env \<Rightarrow> stat \<Rightarrow> path \<Rightarrow> stat" where
  "written E s p = (fresh_stat E p)\<lparr>st_mode := st_mode s, st_size := st_size s\<rparr>"

definition overwritten :: "env \<Rightarrow> stat \<Rightarrow> path \<Rightarrow> stat \<Rightarrow> stat" where
  "overwritten E s p t =
     t\<lparr>st_mode := st_mode s, st_size := st_size s,
       st_mtime := st_mtime (fresh_stat E p), st_mtime_nsec := st_mtime_nsec (fresh_stat E p),
       st_ctime := st_ctime (fresh_stat E p), st_ctime_nsec := st_ctime_nsec (fresh_stat E p)\<rparr>"

definition fs_put :: "path \<Rightarrow> fobj \<Rightarrow> fs \<Rightarrow> fs" where
  "fs_put p n d = (if p \<in> fst ` set d then map (\<lambda>e. if fst e = p then (p, n) else e) d
                   else d @ [(p, n)])"

definition copy_file :: "env \<Rightarrow> stat \<Rightarrow> path \<Rightarrow> fs \<Rightarrow> fs option" where
  "copy_file E s p d =
     (if copy_fails E p then None
      else case map_of d p of
        None \<Rightarrow>
          if p \<noteq> [] \<and> fs_is_directory d (butlast p)
          then Some (fs_put p \<lparr>lst = written E s p, tgt = None\<rparr> d) else None
      | Some n \<Rightarrow>
          if S_ISLNK (st_mode (lst n)) then
            (case tgt n of
               None \<Rightarrow> Some (fs_put p (n\<lparr>tgt := Some (written E s p)\<rparr>) d)
             | Some t \<Rightarrow>
                 if S_ISREG (st_mode t)
                 then Some (fs_put p (n\<lparr>tgt := Some (overwritten E s p t)\<rparr>) d) else None)
          else if S_ISREG (st_mode (lst n))
          then Some (fs_put p (n\<lparr>lst := overwritten E s p (lst n)\<rparr>) d)
          else None)"

text \<open>
  The objects a recursive removal of \<open>p\<close> deletes and counts: \<open>p\<close> and what lies below it
  through real directories. A symbolic link is removed itself, never what it points to.
\<close>

definition real_dir_at :: "fs \<Rightarrow> path \<Rightarrow> bool" where
  "real_dir_at d q \<longleftrightarrow> (case map_of d q of None \<Rightarrow> False | Some n \<Rightarrow> S_ISDIR (st_mode (lst n)))"

definition below_real :: "fs \<Rightarrow> path \<Rightarrow> path \<Rightarrow> bool" where
  "below_real d p q \<longleftrightarrow>
     prefix p q \<and> list_all (\<lambda>r. prefix p r \<and> r \<noteq> q \<longrightarrow> real_dir_at d r) (prefixes q)"

definition removed_objects :: "fs \<Rightarrow> path \<Rightarrow> path list" where
  "removed_objects d p = filter (below_real d p) (remdups (map fst d))"

definition drop_subtree :: "path \<Rightarrow> fs \<Rightarrow> fs" where
  "drop_subtree p d = filter (\<lambda>e. \<not> prefix p (fst e)) d"

text \<open>\<open>fs::remove_all\<close>: the number of objects removed, or a throw (\<open>None\<close>).\<close>

definition remove_all :: "env \<Rightarrow> path \<Rightarrow> fs \<Rightarrow> (nat \<times> fs) option" where
  "remove_all E p d =
     (if remove_fails E p then None
      else case map_of d p of
        None \<Rightarrow> Some (0, d)
      | Some n \<Rightarrow> Some (length (removed_objects d p), drop_subtree p d))"

text \<open>
  \<open>fs::remove\<close>: false when nothing is there, a throw (\<open>None\<close>) on a directory that is
  not empty.
\<close>

definition fs_remove :: "env \<Rightarrow> path \<Rightarrow> fs \<Rightarrow> (bool \<times> fs) option" where
  "fs_remove E p d =
     (if remove_fails E p then None
      else case map_of d p of
        None \<Rightarrow> Some (False, d)
      | Some n \<Rightarrow>
          if S_ISDIR (st_mode (lst n)) \<and> (\<exists>q \<in> fst ` set d. strict_prefix p q) then None
          else Some (True, drop_subtree p d))"

text \<open>\<open>fs::equivalent\<close> on two existing objects: same device and inode.\<close>

definition equivalent :: "stat \<Rightarrow> stat \<Rightarrow> bool" where
  "equivalent a b \<longleftrightarrow> st_dev a = st_dev b \<and> st_ino a = st_ino b"

section \<open>The data of \<open>sync.hpp\<close>\<close>

record SyncOptions =
  remove_extraneous :: bool

text \<open>
  \<open>FileMetadata\<close>; its fields \<open>file\<close> and \<open>size\<close> are \<open>file_path\<close> and \<open>file_size\<close> here.
\<close>

record FileMetadata =
  file_path :: path
  depth :: int
  detail :: bool
  mode :: "64 word"
  uid :: "64 word"
  gid :: "64 word"
  atime :: "64 word"
  atime_nsec :: "64 word"
  mtime :: "64 word"
  mtime_nsec :: "64 word"
  ctime :: "64 word"
  ctime_nsec :: "64 word"
  file_size :: "64 word"

text \<open>
  The counters are \<open>std::size_t\<close>; they count entries of a tree and are modelled as
  natural numbers. \<open>bytes_copied\<close> adds 64-bit sizes and wraps. The four elapsed
  durations are clock readings and are left out.
\<close>

record SyncStats =
  entries_scanned :: nat
  files_copied :: nat
  files_skipped :: nat
  files_deleted :: nat
  directories_created :: nat
  bytes_copied :: "64 word"
  synced_entries :: "FileMetadata list"

definition SyncStats_init :: SyncStats where
  "SyncStats_init =
     \<lparr>entries_scanned = 0, files_copied = 0, files_skipped = 0, files_deleted = 0,
      directories_created = 0, bytes_copied = 0, synced_entries = []\<rparr>"

record RemovalCandidate =
  rc_path :: path
  rc_is_directory :: bool
  rc_depth :: nat

text \<open>The lines written to \<open>std::cerr\<close>, one constructor per message.\<close>

datatype warning =
    LstatError path
  | RelativeFailed path
  | CreateDirectoryFailed path
  | RemoveNonRegularFailed path
  | RemoveSymlinkFailed path
  | EnsureParentFailed path
  | CopyFailed path
  | RemoveFailed path

text \<open>
  The state a run threads through its stages: the statistics, the destination and
  what has been written to \<open>std::cerr\<close>.
\<close>

record run =
  stats :: SyncStats
  dst :: fs
  cerr :: "warning list"

datatype error =
    SourceMissing
  | SourceNotDirectory
  | DestinationNotDirectory
  | SameLocation
  | FilesystemError

section \<open>\<open>sync.cpp\<close>\<close>

definition log_lstat_error :: "path \<Rightarrow> run \<Rightarrow> run" where
  "log_lstat_error p r = r\<lparr>cerr := cerr r @ [LstatError p]\<rparr>"

definition warn :: "warning \<Rightarrow> run \<Rightarrow> run" where
  "warn w r = r\<lparr>cerr := cerr r @ [w]\<rparr>"

text \<open>
  \<open>collect_metadata\<close>, given what \<open>::lstat(path)\<close> returned; \<open>metadata_of\<close> is the
  record it fills on success (lines 293 to 316).
\<close>

definition metadata_of :: "stat \<Rightarrow> path \<Rightarrow> int \<Rightarrow> FileMetadata" where
  "metadata_of s p dep =
     \<lparr>file_path = p, depth = dep, detail = True,
      mode = ucast (st_mode s), uid = ucast (st_uid s), gid = ucast (st_gid s),
      atime = st_atime s, atime_nsec = st_atime_nsec s,
      mtime = st_mtime s, mtime_nsec = st_mtime_nsec s,
      ctime = st_ctime s, ctime_nsec = st_ctime_nsec s,
      file_size = st_size s\<rparr>"

definition collect_metadata :: "stat option \<Rightarrow> path \<Rightarrow> int \<Rightarrow> run \<Rightarrow> FileMetadata option \<times> run" where
  "collect_metadata st p dep r =
     (case st of
        None \<Rightarrow> (None, log_lstat_error p r)
      | Some s \<Rightarrow> (Some (metadata_of s p dep), r))"

text \<open>\<open>static_cast<mode_t>\<close> of the 64-bit \<open>mode\<close> field.\<close>

definition mode_t :: "64 word \<Rightarrow> 32 word" where
  "mode_t m = ucast m"

subsection \<open>Status queries\<close>

text \<open>
  \<open>fs::exists\<close>, \<open>fs::is_directory\<close>, \<open>fs::is_regular_file\<close> and
  \<open>directory_entry::is_directory\<close> are called in \<open>sync.cpp\<close> without an \<open>error_code\<close> and
  outside every \<open>try\<close> block. Each is a \<open>stat\<close>, which follows symbolic links, and throws
  \<open>filesystem_error\<close> when \<open>stat\<close> fails with an error other than "not found". Where
  \<open>lstat\<close> on the path succeeds and the trees show the object the path reaches, \<open>stat\<close>
  reports that object (for a real object it is the same call, and a link the trees
  resolve is resolved). Otherwise, that is where \<open>lstat\<close> on the path fails, nothing is
  at the path, or a link resolves to nothing, the environment decides whether \<open>stat\<close>
  fails with such an error; if it does not, the query answers from the trees.
\<close>

definition stat_fails :: "(path \<Rightarrow> bool) \<Rightarrow> (path \<Rightarrow> bool) \<Rightarrow> path \<Rightarrow> stat option \<Rightarrow> bool" where
  "stat_fails lstat_fails status_fails p s \<longleftrightarrow> status_fails p \<and> (s = None \<or> lstat_fails p)"

definition exists_query :: "env \<Rightarrow> fs \<Rightarrow> path \<Rightarrow> error + bool" where
  "exists_query E d p =
     (if stat_fails (dst_lstat_fails E) (dst_status_fails E) p (status d p)
      then Inl FilesystemError else Inr (fs_exists d p))"

definition is_directory_query :: "env \<Rightarrow> fs \<Rightarrow> path \<Rightarrow> error + bool" where
  "is_directory_query E d p =
     (if stat_fails (dst_lstat_fails E) (dst_status_fails E) p (status d p)
      then Inl FilesystemError else Inr (fs_is_directory d p))"

definition is_regular_file_query :: "env \<Rightarrow> fs \<Rightarrow> path \<Rightarrow> error + bool" where
  "is_regular_file_query E d p =
     (if stat_fails (dst_lstat_fails E) (dst_status_fails E) p (status d p)
      then Inl FilesystemError else Inr (fs_is_regular_file d p))"

text \<open>
  \<open>entry.is_directory()\<close> for the entry \<open>n\<close> at \<open>rel\<close> of the source iterator (with the
  two source oracles of the environment) or of the destination iterator (with the two
  destination oracles). A \<open>directory_entry\<close> answers from the type the directory listing
  gave it unless that type is a symbolic link, for which it asks \<open>stat\<close>.
\<close>

definition entry_is_directory ::
  "(path \<Rightarrow> bool) \<Rightarrow> (path \<Rightarrow> bool) \<Rightarrow> path \<Rightarrow> fobj \<Rightarrow> error + bool" where
  "entry_is_directory lstat_fails status_fails rel n =
     (if S_ISLNK (st_mode (lst n)) \<and> stat_fails lstat_fails status_fails rel (tgt n)
      then Inl FilesystemError else Inr (obj_is_directory n))"

text \<open>\<open>fs::exists(source / relative_path)\<close> of the prune stage.\<close>

definition source_status_at :: "tree \<Rightarrow> path \<Rightarrow> stat option" where
  "source_status_at src p = (case t_lookup src p of None \<Rightarrow> None | Some n \<Rightarrow> follow n)"

definition source_exists_query :: "env \<Rightarrow> tree \<Rightarrow> path \<Rightarrow> error + bool" where
  "source_exists_query E src p =
     (if stat_fails (src_lstat_fails E) (src_status_fails E) p (source_status_at src p)
      then Inl FilesystemError else Inr (src_exists src p))"

subsection \<open>The copy stage\<close>

text \<open>
  A part of the loop returns its result (\<open>Inr\<close>), or the exception that leaves it
  together with the run as it is at the throw (\<open>Inl\<close>).
\<close>

definition skipped :: "run \<Rightarrow> run" where
  "skipped r = r\<lparr>stats := (stats r)\<lparr>files_skipped := files_skipped (stats r) + 1\<rparr>\<rparr>"

definition scanned :: "run \<Rightarrow> run" where
  "scanned r = r\<lparr>stats := (stats r)\<lparr>entries_scanned := entries_scanned (stats r) + 1\<rparr>\<rparr>"

text \<open>Lines 166 to 170: the comparison of a source file with the file at its destination.\<close>

definition size_differs :: "FileMetadata \<Rightarrow> FileMetadata \<Rightarrow> bool" where
  "size_differs src_meta dest_meta \<longleftrightarrow> file_size src_meta \<noteq> file_size dest_meta"

definition time_newer :: "FileMetadata \<Rightarrow> FileMetadata \<Rightarrow> bool" where
  "time_newer src_meta dest_meta \<longleftrightarrow>
     mtime src_meta > mtime dest_meta \<or>
     (mtime src_meta = mtime dest_meta \<and> mtime_nsec src_meta > mtime_nsec dest_meta)"

text \<open>
  Lines 134 to 176: the value of \<open>should_copy\<close> for a regular source file, or \<open>None\<close>
  where the loop body leaves through \<open>continue\<close>.
\<close>

definition should_copy ::
  "env \<Rightarrow> path \<Rightarrow> path \<Rightarrow> FileMetadata \<Rightarrow> run \<Rightarrow> error \<times> run + bool option \<times> run" where
  "should_copy E destination rel src_meta r =
     (case exists_query E (dst r) rel of
        Inl e \<Rightarrow> Inl (e, r)
      | Inr found \<Rightarrow>
          if \<not> found then Inr (Some True, r)
          else
            (case is_regular_file_query E (dst r) rel of
               Inl e \<Rightarrow> Inl (e, r)
             | Inr regular \<Rightarrow>
                 if \<not> regular then
                   (case remove_all E rel (dst r) of
                      Some (k, d') \<Rightarrow> Inr (Some True, r\<lparr>dst := d'\<rparr>)
                    | None \<Rightarrow> Inr (None, warn (RemoveNonRegularFailed (destination @ rel)) r))
                 else
                   (case collect_metadata (dst_lstat E (dst r) rel) (destination @ rel)
                           (int (length rel) - 1) r of
                      (None, r') \<Rightarrow> Inr (Some True, r')
                    | (Some dest_meta, r') \<Rightarrow>
                        if S_ISLNK (mode_t (mode dest_meta)) then
                          (case fs_remove E rel (dst r') of
                             Some (b, d') \<Rightarrow> Inr (Some True, r'\<lparr>dst := d'\<rparr>)
                           | None \<Rightarrow>
                               Inr (None, warn (RemoveSymlinkFailed (destination @ rel)) r'))
                        else
                          Inr (Some (size_differs src_meta dest_meta \<or>
                                     time_newer src_meta dest_meta), r'))))"

text \<open>Lines 178 to 201: the copy itself, \<open>n\<close> being the source object.\<close>

definition do_copy :: "env \<Rightarrow> path \<Rightarrow> path \<Rightarrow> fobj \<Rightarrow> FileMetadata \<Rightarrow> run \<Rightarrow> run" where
  "do_copy E destination rel n src_meta r =
     (case create_directories E (butlast rel) (dst r) of
        None \<Rightarrow> warn (EnsureParentFailed (destination @ rel)) r
      | Some d1 \<Rightarrow>
          (case copy_file E (lst n) rel d1 of
             None \<Rightarrow> warn (CopyFailed (destination @ rel)) (r\<lparr>dst := d1\<rparr>)
           | Some d2 \<Rightarrow>
               r\<lparr>dst := d2,
                 stats := (stats r)
                   \<lparr>files_copied := files_copied (stats r) + 1,
                    bytes_copied := bytes_copied (stats r) + file_size src_meta,
                    synced_entries := synced_entries (stats r) @ [src_meta]\<rparr>\<rparr>))"

text \<open>
  Lines 76 to 205: the body of the loop for the source entry \<open>n\<close> at \<open>source @ rel\<close>.
  The boolean is the iterator's \<open>recursion_pending\<close> after the body.
\<close>

definition copy_entry ::
  "env \<Rightarrow> path \<Rightarrow> path \<Rightarrow> path \<Rightarrow> fobj \<Rightarrow> run \<Rightarrow> error \<times> run + bool \<times> run" where
  "copy_entry E source destination rel n r0 =
     (case collect_metadata (src_lstat E rel n) (source @ rel) (int (length rel) - 1)
             (scanned r0) of
        (None, r) \<Rightarrow>
          (case entry_is_directory (src_lstat_fails E) (src_status_fails E) rel n of
             Inl e \<Rightarrow> Inl (e, r)
           | Inr is_dir \<Rightarrow> Inr (\<not> is_dir, r))
      | (Some src_meta, r) \<Rightarrow>
          if S_ISLNK (mode_t (mode src_meta)) then Inr (False, skipped r)
          else if src_relative_fails E rel then
            (case entry_is_directory (src_lstat_fails E) (src_status_fails E) rel n of
               Inl e \<Rightarrow> Inl (e, warn (RelativeFailed (source @ rel)) r)
             | Inr is_dir \<Rightarrow> Inr (\<not> is_dir, warn (RelativeFailed (source @ rel)) r))
          else if S_ISDIR (mode_t (mode src_meta)) then
            (case exists_query E (dst r) rel of
               Inl e \<Rightarrow> Inl (e, r)
             | Inr found \<Rightarrow>
                 if \<not> found then
                   (case create_directories E rel (dst r) of
                      Some d' \<Rightarrow>
                        Inr (True,
                             r\<lparr>dst := d',
                               stats := (stats r)
                                 \<lparr>directories_created := directories_created (stats r) + 1,
                                  synced_entries := synced_entries (stats r) @ [src_meta]\<rparr>\<rparr>)
                    | None \<Rightarrow>
                        Inr (False, warn (CreateDirectoryFailed (destination @ rel)) r))
                 else Inr (True, r))
          else if \<not> S_ISREG (mode_t (mode src_meta)) then Inr (True, skipped r)
          else
            (case should_copy E destination rel src_meta r of
               Inl e \<Rightarrow> Inl e
             | Inr (None, r') \<Rightarrow> Inr (True, r')
             | Inr (Some True, r') \<Rightarrow> Inr (True, do_copy E destination rel n src_meta r')
             | Inr (Some False, r') \<Rightarrow> Inr (True, skipped r')))"

text \<open>
  The loop over \<open>recursive_directory_iterator(source)\<close>: entries in directory order,
  each directory followed by its entries unless recursion was disabled. The iterator
  descends into real directories only, never through a symbolic link. An exception
  from the body ends the loop.
\<close>

fun copy_tree :: "env \<Rightarrow> path \<Rightarrow> path \<Rightarrow> path \<Rightarrow> tree \<Rightarrow> run \<Rightarrow> error \<times> run + run"
  and copy_forest ::
    "env \<Rightarrow> path \<Rightarrow> path \<Rightarrow> path \<Rightarrow> tree list \<Rightarrow> run \<Rightarrow> error \<times> run + run" where
  "copy_tree E source destination dir (Node x n ts) r =
     (case copy_entry E source destination (dir @ [x]) n r of
        Inl e \<Rightarrow> Inl e
      | Inr (pending, r') \<Rightarrow>
          if pending \<and> S_ISDIR (st_mode (lst n))
          then copy_forest E source destination (dir @ [x]) ts r' else Inr r')"
| "copy_forest E source destination dir [] r = Inr r"
| "copy_forest E source destination dir (t # ts) r =
     (case copy_tree E source destination dir t r of
        Inl e \<Rightarrow> Inl e
      | Inr r' \<Rightarrow> copy_forest E source destination dir ts r')"

definition copy_from_source :: "env \<Rightarrow> path \<Rightarrow> path \<Rightarrow> tree \<Rightarrow> run \<Rightarrow> error \<times> run + run" where
  "copy_from_source E source destination src r =
     copy_forest E source destination [] (t_kids src) r"

subsection \<open>The prune stage\<close>

text \<open>
  Lines 226 to 260: the body of the discovery loop for the destination entry \<open>n\<close> at
  \<open>destination @ rel\<close>: the iterator's \<open>recursion_pending\<close> after the body, the
  candidate pushed if any, and the run. A candidate keeps its path relative to the
  destination root; its depth counts the components of the full path
  (\<open>std::distance(entry.path().begin(), entry.path().end())\<close>).
\<close>

definition prune_entry ::
  "env \<Rightarrow> tree \<Rightarrow> path \<Rightarrow> path \<Rightarrow> fobj \<Rightarrow> run \<Rightarrow>
     error \<times> run + bool \<times> RemovalCandidate option \<times> run" where
  "prune_entry E src destination rel n r =
     (case collect_metadata (dst_lstat E (dst r) rel) (destination @ rel)
             (int (length rel) - 1) r of
        (None, r') \<Rightarrow>
          (case entry_is_directory (dst_lstat_fails E) (dst_status_fails E) rel n of
             Inl e \<Rightarrow> Inl (e, r')
           | Inr is_dir \<Rightarrow> Inr (\<not> is_dir, None, r'))
      | (Some dest_meta, r') \<Rightarrow>
          if S_ISLNK (mode_t (mode dest_meta)) then Inr (True, None, r')
          else if dst_relative_fails E rel then
            (case entry_is_directory (dst_lstat_fails E) (dst_status_fails E) rel n of
               Inl e \<Rightarrow> Inl (e, warn (RelativeFailed (destination @ rel)) r')
             | Inr is_dir \<Rightarrow>
                 Inr (\<not> is_dir, None, warn (RelativeFailed (destination @ rel)) r'))
          else
            (case source_exists_query E src rel of
               Inl e \<Rightarrow> Inl (e, r')
             | Inr found \<Rightarrow>
                 if found then Inr (True, None, r')
                 else
                   Inr (True,
                        Some \<lparr>rc_path = rel,
                              rc_is_directory = S_ISDIR (mode_t (mode dest_meta)),
                              rc_depth = length (destination @ rel)\<rparr>,
                        r')))"

text \<open>
  The entries \<open>recursive_directory_iterator(destination)\<close> yields: those below the
  root that are reached through real directories on which the loop body left
  recursion pending. The discovery loop changes nothing but \<open>std::cerr\<close>, so the
  entries are those of the destination as the stage finds it, here in listing order
  (the order of a directory's entries is unspecified, and the candidates are sorted
  before use). Nothing below an entry on which the body throws is visited.
\<close>

definition prune_descends :: "env \<Rightarrow> tree \<Rightarrow> path \<Rightarrow> run \<Rightarrow> path \<Rightarrow> bool" where
  "prune_descends E src destination r q \<longleftrightarrow>
     (case map_of (dst r) q of
        None \<Rightarrow> False
      | Some n \<Rightarrow>
          S_ISDIR (st_mode (lst n)) \<and>
          (case prune_entry E src destination q n r of
             Inl e \<Rightarrow> False
           | Inr (pending, c, r') \<Rightarrow> pending))"

definition prune_reaches :: "env \<Rightarrow> tree \<Rightarrow> path \<Rightarrow> run \<Rightarrow> path \<Rightarrow> bool" where
  "prune_reaches E src destination r p \<longleftrightarrow>
     p \<noteq> [] \<and>
     list_all (\<lambda>q. q = [] \<or> q = p \<or> prune_descends E src destination r q) (prefixes p)"

definition prune_walk :: "env \<Rightarrow> tree \<Rightarrow> path \<Rightarrow> run \<Rightarrow> path list" where
  "prune_walk E src destination r =
     filter (prune_reaches E src destination r) (remdups (map fst (dst r)))"

fun prune_scan ::
  "env \<Rightarrow> tree \<Rightarrow> path \<Rightarrow> path list \<Rightarrow> run \<Rightarrow> error \<times> run + RemovalCandidate list \<times> run" where
  "prune_scan E src destination [] r = Inr ([], r)"
| "prune_scan E src destination (p # ps) r =
     (case map_of (dst r) p of
        None \<Rightarrow> prune_scan E src destination ps r
      | Some n \<Rightarrow>
          (case prune_entry E src destination p n r of
             Inl e \<Rightarrow> Inl e
           | Inr (pending, c, r') \<Rightarrow>
               (case prune_scan E src destination ps r' of
                  Inl e \<Rightarrow> Inl e
                | Inr (cs, r'') \<Rightarrow> Inr ((case c of None \<Rightarrow> [] | Some x \<Rightarrow> [x]) @ cs, r''))))"

text \<open>
  Lines 263 and 264: \<open>std::sort\<close> with \<open>lhs.depth > rhs.depth\<close>, deepest first.
  \<open>std::sort\<close> leaves the order of equal depths open; the model keeps it.
\<close>

definition sort_candidates :: "RemovalCandidate list \<Rightarrow> RemovalCandidate list" where
  "sort_candidates cs = sort_key (\<lambda>c. - int (rc_depth c)) cs"

text \<open>Lines 266 to 281: the removal of one candidate, and the loop.\<close>

definition remove_candidate :: "env \<Rightarrow> path \<Rightarrow> RemovalCandidate \<Rightarrow> run \<Rightarrow> run" where
  "remove_candidate E destination c r =
     (if rc_is_directory c then
        (case remove_all E (rc_path c) (dst r) of
           Some (removed, d') \<Rightarrow>
             r\<lparr>dst := d', stats := (stats r)\<lparr>files_deleted := files_deleted (stats r) + removed\<rparr>\<rparr>
         | None \<Rightarrow> warn (RemoveFailed (destination @ rc_path c)) r)
      else
        (case fs_remove E (rc_path c) (dst r) of
           Some (b, d') \<Rightarrow>
             if b
             then r\<lparr>dst := d', stats := (stats r)\<lparr>files_deleted := files_deleted (stats r) + 1\<rparr>\<rparr>
             else r\<lparr>dst := d'\<rparr>
         | None \<Rightarrow> warn (RemoveFailed (destination @ rc_path c)) r))"

fun remove_candidates :: "env \<Rightarrow> path \<Rightarrow> RemovalCandidate list \<Rightarrow> run \<Rightarrow> run" where
  "remove_candidates E destination [] r = r"
| "remove_candidates E destination (c # cs) r =
     remove_candidates E destination cs (remove_candidate E destination c r)"

definition prune_destination :: "env \<Rightarrow> tree \<Rightarrow> path \<Rightarrow> run \<Rightarrow> error \<times> run + run" where
  "prune_destination E src destination r =
     (case prune_scan E src destination (prune_walk E src destination r) r of
        Inl e \<Rightarrow> Inl e
      | Inr (candidates, r') \<Rightarrow>
          Inr (remove_candidates E destination (sort_candidates candidates) r'))"

subsection \<open>The orchestrator\<close>

text \<open>
  The source root is \<open>None\<close> when nothing is at the source path. \<open>validate_inputs\<close>
  returns the exception it throws, or \<open>None\<close>: one of its three \<open>runtime_error\<close>s, or
  the \<open>filesystem_error\<close> of a status query.
\<close>

definition source_status :: "tree option \<Rightarrow> stat option" where
  "source_status source_root = (case source_root of None \<Rightarrow> None | Some t \<Rightarrow> follow (t_obj t))"

definition validate_inputs :: "env \<Rightarrow> tree option \<Rightarrow> fs \<Rightarrow> error option" where
  "validate_inputs E source_root d =
     (if stat_fails (src_lstat_fails E) (src_status_fails E) [] (source_status source_root)
      then Some FilesystemError
      else case source_status source_root of
        None \<Rightarrow> Some SourceMissing
      | Some s \<Rightarrow>
          if \<not> S_ISDIR (st_mode s) then Some SourceNotDirectory
          else
            (case exists_query E d [] of
               Inl e \<Rightarrow> Some e
             | Inr found \<Rightarrow>
                 if \<not> found then None
                 else
                   (case is_directory_query E d [] of
                      Inl e \<Rightarrow> Some e
                    | Inr is_dir \<Rightarrow> if \<not> is_dir then Some DestinationNotDirectory else None)))"

text \<open>
  \<open>ensure_destination_root\<close>: the destination with its root, or \<open>None\<close> when
  \<open>fs::exists\<close> or \<open>fs::create_directories\<close> throws (line 64, outside any handler).
\<close>

definition ensure_destination_root :: "env \<Rightarrow> fs \<Rightarrow> fs option" where
  "ensure_destination_root E d =
     (case exists_query E d [] of
        Inl e \<Rightarrow> None
      | Inr found \<Rightarrow> if \<not> found then create_directories E [] d else Some d)"

definition same_location :: "tree \<Rightarrow> fs \<Rightarrow> bool" where
  "same_location t d \<longleftrightarrow>
     (case (follow (t_obj t), status d []) of
        (Some a, Some b) \<Rightarrow> equivalent a b
      | _ \<Rightarrow> False)"

text \<open>
  \<open>synchronize\<close> returns the run, or the exception it lets through together with the
  destination as the exception leaves it.
\<close>

definition start :: "fs \<Rightarrow> run" where
  "start d = \<lparr>stats = SyncStats_init, dst = d, cerr = []\<rparr>"

definition synchronize ::
  "env \<Rightarrow> SyncOptions \<Rightarrow> path \<Rightarrow> path \<Rightarrow> tree option \<Rightarrow> fs \<Rightarrow> error \<times> fs + run" where
  "synchronize E options source destination source_root d =
     (case validate_inputs E source_root d of
        Some e \<Rightarrow> Inl (e, d)
      | None \<Rightarrow>
          (case ensure_destination_root E d of
             None \<Rightarrow> Inl (FilesystemError, d)
           | Some d1 \<Rightarrow>
               (case source_root of
                  None \<Rightarrow> Inl (SourceMissing, d1)
                | Some src \<Rightarrow>
                    if same_location src d1 then Inl (SameLocation, d1)
                    else
                      (case copy_from_source E source destination src (start d1) of
                         Inl (e, r) \<Rightarrow> Inl (e, dst r)
                       | Inr r \<Rightarrow>
                           if remove_extraneous options then
                             (case prune_destination E src destination r of
                                Inl (e, r') \<Rightarrow> Inl (e, dst r')
                              | Inr r' \<Rightarrow> Inr r')
                           else Inr r))))"

section \<open>The two stages where every status query answers\<close>

text \<open>
  The same loops with every status query answering from the trees. A part of the code
  that returns has run as its counterpart here does, and where no query throws the two
  agree (section \<open>Executions that return\<close>); the proofs about returning runs go through
  these functions.
\<close>

definition should_copy_ok :: "env \<Rightarrow> path \<Rightarrow> path \<Rightarrow> FileMetadata \<Rightarrow> run \<Rightarrow> bool option \<times> run" where
  "should_copy_ok E destination rel src_meta r =
     (if \<not> fs_exists (dst r) rel then (Some True, r)
      else if \<not> fs_is_regular_file (dst r) rel then
        (case remove_all E rel (dst r) of
           Some (k, d') \<Rightarrow> (Some True, r\<lparr>dst := d'\<rparr>)
         | None \<Rightarrow> (None, warn (RemoveNonRegularFailed (destination @ rel)) r))
      else
        (case collect_metadata (dst_lstat E (dst r) rel) (destination @ rel)
                (int (length rel) - 1) r of
           (None, r') \<Rightarrow> (Some True, r')
         | (Some dest_meta, r') \<Rightarrow>
             if S_ISLNK (mode_t (mode dest_meta)) then
               (case fs_remove E rel (dst r') of
                  Some (b, d') \<Rightarrow> (Some True, r'\<lparr>dst := d'\<rparr>)
                | None \<Rightarrow> (None, warn (RemoveSymlinkFailed (destination @ rel)) r'))
             else (Some (size_differs src_meta dest_meta \<or> time_newer src_meta dest_meta), r')))"

definition copy_entry_ok :: "env \<Rightarrow> path \<Rightarrow> path \<Rightarrow> path \<Rightarrow> fobj \<Rightarrow> run \<Rightarrow> bool \<times> run" where
  "copy_entry_ok E source destination rel n r0 =
     (case collect_metadata (src_lstat E rel n) (source @ rel) (int (length rel) - 1)
             (scanned r0) of
        (None, r) \<Rightarrow> (\<not> obj_is_directory n, r)
      | (Some src_meta, r) \<Rightarrow>
          if S_ISLNK (mode_t (mode src_meta)) then (False, skipped r)
          else if src_relative_fails E rel
          then (\<not> obj_is_directory n, warn (RelativeFailed (source @ rel)) r)
          else if S_ISDIR (mode_t (mode src_meta)) then
            (if \<not> fs_exists (dst r) rel then
               (case create_directories E rel (dst r) of
                  Some d' \<Rightarrow>
                    (True,
                     r\<lparr>dst := d',
                       stats := (stats r)
                         \<lparr>directories_created := directories_created (stats r) + 1,
                          synced_entries := synced_entries (stats r) @ [src_meta]\<rparr>\<rparr>)
                | None \<Rightarrow> (False, warn (CreateDirectoryFailed (destination @ rel)) r))
             else (True, r))
          else if \<not> S_ISREG (mode_t (mode src_meta)) then (True, skipped r)
          else
            (case should_copy_ok E destination rel src_meta r of
               (None, r') \<Rightarrow> (True, r')
             | (Some True, r') \<Rightarrow> (True, do_copy E destination rel n src_meta r')
             | (Some False, r') \<Rightarrow> (True, skipped r')))"

fun copy_tree_ok :: "env \<Rightarrow> path \<Rightarrow> path \<Rightarrow> path \<Rightarrow> tree \<Rightarrow> run \<Rightarrow> run"
  and copy_forest_ok :: "env \<Rightarrow> path \<Rightarrow> path \<Rightarrow> path \<Rightarrow> tree list \<Rightarrow> run \<Rightarrow> run" where
  "copy_tree_ok E source destination dir (Node x n ts) r =
     (case copy_entry_ok E source destination (dir @ [x]) n r of
        (pending, r') \<Rightarrow>
          if pending \<and> S_ISDIR (st_mode (lst n))
          then copy_forest_ok E source destination (dir @ [x]) ts r' else r')"
| "copy_forest_ok E source destination dir [] r = r"
| "copy_forest_ok E source destination dir (t # ts) r =
     copy_forest_ok E source destination dir ts (copy_tree_ok E source destination dir t r)"

definition copy_from_source_ok :: "env \<Rightarrow> path \<Rightarrow> path \<Rightarrow> tree \<Rightarrow> run \<Rightarrow> run" where
  "copy_from_source_ok E source destination src r =
     copy_forest_ok E source destination [] (t_kids src) r"

definition prune_entry_ok ::
  "env \<Rightarrow> tree \<Rightarrow> path \<Rightarrow> path \<Rightarrow> fobj \<Rightarrow> run \<Rightarrow> bool \<times> RemovalCandidate option \<times> run" where
  "prune_entry_ok E src destination rel n r =
     (case collect_metadata (dst_lstat E (dst r) rel) (destination @ rel)
             (int (length rel) - 1) r of
        (None, r') \<Rightarrow> (\<not> obj_is_directory n, None, r')
      | (Some dest_meta, r') \<Rightarrow>
          if S_ISLNK (mode_t (mode dest_meta)) then (True, None, r')
          else if dst_relative_fails E rel
          then (\<not> obj_is_directory n, None, warn (RelativeFailed (destination @ rel)) r')
          else if src_exists src rel then (True, None, r')
          else
            (True,
             Some \<lparr>rc_path = rel, rc_is_directory = S_ISDIR (mode_t (mode dest_meta)),
                   rc_depth = length (destination @ rel)\<rparr>,
             r'))"

fun prune_scan_ok ::
  "env \<Rightarrow> tree \<Rightarrow> path \<Rightarrow> path list \<Rightarrow> run \<Rightarrow> RemovalCandidate list \<times> run" where
  "prune_scan_ok E src destination [] r = ([], r)"
| "prune_scan_ok E src destination (p # ps) r =
     (case map_of (dst r) p of
        None \<Rightarrow> prune_scan_ok E src destination ps r
      | Some n \<Rightarrow>
          (case prune_entry_ok E src destination p n r of
             (pending, c, r') \<Rightarrow>
               (case prune_scan_ok E src destination ps r' of
                  (cs, r'') \<Rightarrow> ((case c of None \<Rightarrow> [] | Some x \<Rightarrow> [x]) @ cs, r''))))"

definition prune_destination_ok :: "env \<Rightarrow> tree \<Rightarrow> path \<Rightarrow> run \<Rightarrow> run" where
  "prune_destination_ok E src destination r =
     (case prune_scan_ok E src destination (prune_walk E src destination r) r of
        (candidates, r') \<Rightarrow>
          remove_candidates E destination (sort_candidates candidates) r')"


section \<open>The order of the source traversal\<close>



section \<open>Conditions on a run and its trees\<close>





text \<open>The destination holds no symbolic link whose target is missing.\<close>

definition dangling :: "fobj \<Rightarrow> bool" where
  "dangling n \<longleftrightarrow> S_ISLNK (st_mode (lst n)) \<and> tgt n = None"

definition no_dangling :: "fs \<Rightarrow> bool" where
  "no_dangling d \<longleftrightarrow> list_all (\<lambda>e. \<not> dangling (snd e)) d"


definition counts_agree :: "run \<Rightarrow> bool" where
  "counts_agree r \<longleftrightarrow>
     length (synced_entries (stats r)) = files_copied (stats r) + directories_created (stats r)"

text \<open>What the copy loop does to a run over entries that are all settled.\<close>

fun pass :: "(path \<times> fobj) list \<Rightarrow> run \<Rightarrow> run" where
  "pass [] r = r"
| "pass (e # es) r =
     pass es (if S_ISDIR (st_mode (lst (snd e))) then scanned r else skipped (scanned r))"

section \<open>The scenario of the test suite\<close>

text \<open>
  Concrete objects, an environment in which no call fails, and the trees of the
  scenario: a stale \<open>file1.txt\<close>, an up-to-date \<open>dirA/file2.txt\<close>, a missing
  \<open>dirA/subdir/file3.txt\<close>, and the destination-only \<open>extra.txt\<close> and
  \<open>dirA/subdir/obsolete.txt\<close>.
\<close>

definition ex_stat :: "32 word \<Rightarrow> 64 word \<Rightarrow> 64 word \<Rightarrow> 64 word \<Rightarrow> stat" where
  "ex_stat m ino sz mt =
     \<lparr>st_dev = 1, st_ino = ino, st_mode = m, st_uid = 1000, st_gid = 1000, st_size = sz,
      st_atime = mt, st_atime_nsec = 0, st_mtime = mt, st_mtime_nsec = 0,
      st_ctime = mt, st_ctime_nsec = 0\<rparr>"

definition ex_reg :: "64 word \<Rightarrow> 64 word \<Rightarrow> 64 word \<Rightarrow> fobj" where
  "ex_reg ino sz mt = \<lparr>lst = ex_stat 0x81A4 ino sz mt, tgt = None\<rparr>"

definition ex_dir :: "64 word \<Rightarrow> fobj" where
  "ex_dir ino = \<lparr>lst = ex_stat 0x41ED ino 4096 5, tgt = None\<rparr>"

definition ex_lnk :: "64 word \<Rightarrow> stat option \<Rightarrow> fobj" where
  "ex_lnk ino t = \<lparr>lst = ex_stat 0xA1FF ino 9 5, tgt = t\<rparr>"

definition never :: "path \<Rightarrow> bool" where
  "never p = False"

definition ex_fresh :: "path \<Rightarrow> stat" where
  "ex_fresh p = ex_stat 0x81A4 (100 + of_nat (length p)) 0 1000"

definition quiet :: env where
  "quiet =
     \<lparr>src_lstat_fails = never, dst_lstat_fails = never, src_relative_fails = never,
      dst_relative_fails = never, src_status_fails = never, dst_status_fails = never,
      mkdir_fails = never, copy_fails = never, remove_fails = never, fresh_stat = ex_fresh\<rparr>"

definition scenario_source :: tree where
  "scenario_source =
     Node ''source_base'' (ex_dir 10)
       [Node ''file1.txt'' (ex_reg 11 1 20) [],
        Node ''dirA'' (ex_dir 12)
          [Node ''file2.txt'' (ex_reg 13 5 10) [],
           Node ''subdir'' (ex_dir 14) [Node ''file3.txt'' (ex_reg 15 7 10) []]]]"

definition scenario_destination :: fs where
  "scenario_destination =
     [([], ex_dir 20),
      ([''file1.txt''], ex_reg 21 1 10),
      ([''dirA''], ex_dir 22),
      ([''dirA'', ''file2.txt''], ex_reg 23 5 10),
      ([''extra.txt''], ex_reg 24 3 3),
      ([''dirA'', ''subdir''], ex_dir 25),
      ([''dirA'', ''subdir'', ''obsolete.txt''], ex_reg 26 2 2)]"

definition scenario_run :: "error \<times> fs + run" where
  "scenario_run =
     synchronize quiet \<lparr>remove_extraneous = True\<rparr> [''source_base''] [''dest'']
       (Some scenario_source) scenario_destination"


text \<open>Environments in which one call fails.\<close>

definition at_dirA :: "path \<Rightarrow> bool" where
  "at_dirA p \<longleftrightarrow> p = [''dirA'']"

definition at_file1 :: "path \<Rightarrow> bool" where
  "at_file1 p \<longleftrightarrow> p = [''file1.txt'']"


definition lstat_denied :: env where
  "lstat_denied = quiet\<lparr>src_lstat_fails := at_dirA\<rparr>"

definition copy_denied :: env where
  "copy_denied = quiet\<lparr>copy_fails := at_file1\<rparr>"


text \<open>
  A regular source file \<open>a\<close> whose destination path holds a directory with a file in it,
  and one whose destination path holds a symbolic link to a regular file.
\<close>

definition replace_source :: tree where
  "replace_source = Node ''s'' (ex_dir 30) [Node ''a'' (ex_reg 31 4 50) []]"





text \<open>A destination-only directory with a file in it.\<close>

definition nested_destination :: fs where
  "nested_destination =
     [([], ex_dir 40), ([''old''], ex_dir 45), ([''old'', ''f''], ex_reg 46 1 1)]"

definition nested_candidates :: "RemovalCandidate list" where
  "nested_candidates =
     [\<lparr>rc_path = [''old''], rc_is_directory = True, rc_depth = 2\<rparr>,
      \<lparr>rc_path = [''old'', ''f''], rc_is_directory = False, rc_depth = 3\<rparr>]"

text \<open>A destination-only symbolic link beside the file \<open>a\<close>.\<close>

definition stray_destination :: fs where
  "stray_destination =
     [([], ex_dir 40), ([''a''], ex_reg 47 4 60), ([''ln''], ex_lnk 48 None)]"

definition stray_run :: "error \<times> fs + run" where
  "stray_run =
     synchronize quiet \<lparr>remove_extraneous = True\<rparr> [''s''] [''d'']
       (Some replace_source) stray_destination"


definition empty_destination :: fs where
  "empty_destination = [([], ex_dir 40)]"




text \<open>
  A source directory \<open>sub\<close> that can be listed but denies search permission: \<open>lstat\<close> on
  its entry \<open>ln\<close>, a symbolic link, fails, and so does the \<open>stat\<close> that follows the
  link. The regular file \<open>a\<close> comes after \<open>sub\<close>.
\<close>

definition at_ln :: "path \<Rightarrow> bool" where
  "at_ln p \<longleftrightarrow> p = [''sub'', ''ln'']"

definition status_denied :: env where
  "status_denied = quiet\<lparr>src_lstat_fails := at_ln, src_status_fails := at_ln\<rparr>"

definition unreadable_source :: tree where
  "unreadable_source =
     Node ''s'' (ex_dir 30)
       [Node ''sub'' (ex_dir 34) [Node ''ln'' (ex_lnk 32 None) []],
        Node ''a'' (ex_reg 31 4 50) []]"

definition unreadable_run :: "error \<times> fs + run" where
  "unreadable_run =
     synchronize status_denied \<lparr>remove_extraneous = True\<rparr> [''s''] [''d'']
       (Some unreadable_source) empty_destination"

text \<open>The scenario with \<open>lstat\<close> failing on \<open>dirA\<close>, and with the copy of \<open>file1.txt\<close> failing.\<close>

definition lstat_denied_run :: "error \<times> fs + run" where
  "lstat_denied_run =
     synchronize lstat_denied \<lparr>remove_extraneous = True\<rparr> [''source_base''] [''dest'']
       (Some scenario_source) scenario_destination"

definition copy_denied_run :: "error \<times> fs + run" where
  "copy_denied_run =
     synchronize copy_denied \<lparr>remove_extraneous = True\<rparr> [''source_base''] [''dest'']
       (Some scenario_source) scenario_destination"







section \<open>File types and metadata\<close>


lemma mode_t_ucast [simp]: "mode_t (ucast (m :: 32 word)) = m"
  unfolding mode_t_def by (rule bit_word_eqI) (auto simp: bit_simps)

lemma mode_metadata_of [simp]: "mode_t (mode (metadata_of s p dep)) = st_mode s"
  by (simp add: metadata_of_def)

lemma metadata_of_simps [simp]:
  "file_size (metadata_of s p dep) = st_size s"
  "mtime (metadata_of s p dep) = st_mtime s"
  "mtime_nsec (metadata_of s p dep) = st_mtime_nsec s"
  "file_path (metadata_of s p dep) = p"
  by (simp_all add: metadata_of_def)

lemma S_ISDIR_not_LNK: "S_ISDIR m \<Longrightarrow> \<not> S_ISLNK m"
  and S_ISREG_not_LNK: "S_ISREG m \<Longrightarrow> \<not> S_ISLNK m"
  and S_ISREG_not_DIR: "S_ISREG m \<Longrightarrow> \<not> S_ISDIR m"
  unfolding S_ISLNK_def S_IFLNK_def S_ISREG_def S_IFREG_def S_ISDIR_def S_IFDIR_def S_IFMT_def
  by auto

lemma set_type_mask: "set_type t m AND S_IFMT = t AND S_IFMT"
  unfolding set_type_def by (rule bit_word_eqI) (auto simp: bit_simps)

lemma S_ISDIR_set_type [simp]: "S_ISDIR (set_type S_IFDIR m)"
  unfolding S_ISDIR_def set_type_mask by (simp add: S_IFDIR_def S_IFMT_def)



lemma stats_simps [simp]:
  "stats (warn w r) = stats r" "stats (log_lstat_error p r) = stats r"
  "dst (warn w r) = dst r" "dst (log_lstat_error p r) = dst r"
  "dst (skipped r) = dst r" "dst (scanned r) = dst r"
  "cerr (skipped r) = cerr r" "cerr (scanned r) = cerr r"
  "cerr (warn w r) = cerr r @ [w]" "cerr (log_lstat_error p r) = cerr r @ [LstatError p]"
  by (simp_all add: warn_def log_lstat_error_def skipped_def scanned_def)

lemma counter_simps [simp]:
  "files_copied (stats (skipped r)) = files_copied (stats r)"
  "files_copied (stats (scanned r)) = files_copied (stats r)"
  "directories_created (stats (skipped r)) = directories_created (stats r)"
  "directories_created (stats (scanned r)) = directories_created (stats r)"
  "synced_entries (stats (skipped r)) = synced_entries (stats r)"
  "synced_entries (stats (scanned r)) = synced_entries (stats r)"
  "files_deleted (stats (skipped r)) = files_deleted (stats r)"
  "files_deleted (stats (scanned r)) = files_deleted (stats r)"
  "files_skipped (stats (skipped r)) = files_skipped (stats r) + 1"
  "files_skipped (stats (scanned r)) = files_skipped (stats r)"
  by (simp_all add: skipped_def scanned_def)

section \<open>Executions that return\<close>


lemma should_copy_cases:
  "should_copy E destination rel m r =
     (if stat_fails (dst_lstat_fails E) (dst_status_fails E) rel (status (dst r) rel)
      then Inl (FilesystemError, r)
      else Inr (should_copy_ok E destination rel m r))"
  by (auto simp: should_copy_def should_copy_ok_def exists_query_def is_regular_file_query_def
      fs_exists_def split: prod.splits option.splits)

lemma copy_entry_returns:
  "copy_entry E source destination rel n r = Inr x \<Longrightarrow>
     copy_entry_ok E source destination rel n r = x"
  by (auto simp: copy_entry_def copy_entry_ok_def should_copy_cases entry_is_directory_def
      exists_query_def fs_exists_def
      split: prod.splits option.splits if_splits bool.splits sum.splits)

lemma copy_entry_throws:
  "copy_entry E source destination rel n r = Inl (e, r') \<Longrightarrow>
     e = FilesystemError \<and> dst r' = dst r \<and> stats r' = stats (scanned r) \<and>
     (\<exists>ws. cerr r' = cerr r @ ws) \<and>
     ((S_ISLNK (st_mode (lst n)) \<and> src_status_fails E rel) \<or>
      stat_fails (dst_lstat_fails E) (dst_status_fails E) rel (status (dst r) rel))"
  by (auto simp: copy_entry_def should_copy_cases entry_is_directory_def stat_fails_def
      exists_query_def fs_exists_def collect_metadata_def warn_def log_lstat_error_def scanned_def
      split: prod.splits option.splits if_splits bool.splits sum.splits)



lemma copy_tree_returns:
  "copy_tree E source destination dir t r = Inr r' \<Longrightarrow>
     copy_tree_ok E source destination dir t r = r'"
  "copy_forest E source destination dir ts r = Inr r' \<Longrightarrow>
     copy_forest_ok E source destination dir ts r = r'"
proof (induction E source destination dir t r and E source destination dir ts r
    arbitrary: r' and r' rule: copy_tree_copy_forest.induct)
  case (1 E source destination dir x n ts r)
  from "1.prems" obtain b r1 where
    e: "copy_entry E source destination (dir @ [x]) n r = Inr (b, r1)"
    by (auto split: sum.splits)
  have ok: "copy_entry_ok E source destination (dir @ [x]) n r = (b, r1)"
    using e by (rule copy_entry_returns)
  show ?case
  proof (cases "b \<and> S_ISDIR (st_mode (lst n))")
    case True
    then have "copy_forest E source destination (dir @ [x]) ts r1 = Inr r'"
      using "1.prems" e by simp
    with "1.IH" [OF e refl] True have "copy_forest_ok E source destination (dir @ [x]) ts r1 = r'"
      by simp
    then show ?thesis using True ok by simp
  next
    case False
    then show ?thesis using "1.prems" e ok by auto
  qed
next
  case (2 E source destination dir r)
  then show ?case by simp
next
  case (3 E source destination dir t ts r)
  from "3.prems" obtain r1 where
    t: "copy_tree E source destination dir t r = Inr r1"
    and f: "copy_forest E source destination dir ts r1 = Inr r'"
    by (auto split: sum.splits)
  from "3.IH"(1) [OF t] have "copy_tree_ok E source destination dir t r = r1" .
  moreover from "3.IH"(2) [OF t f] have "copy_forest_ok E source destination dir ts r1 = r'" .
  ultimately show ?case by simp
qed


lemma prune_entry_returns:
  "prune_entry E src destination rel n r = Inr x \<Longrightarrow>
     prune_entry_ok E src destination rel n r = x"
  by (auto simp: prune_entry_def prune_entry_ok_def entry_is_directory_def
      source_exists_query_def split: prod.splits option.splits if_splits sum.splits)


lemma prune_scan_returns:
  "prune_scan E src destination ps r = Inr x \<Longrightarrow> prune_scan_ok E src destination ps r = x"
proof (induction ps arbitrary: r x)
  case (Cons p ps)
  show ?case
  proof (cases "map_of (dst r) p")
    case None
    then show ?thesis using Cons by simp
  next
    case (Some n)
    from Cons.prems Some obtain b c r1 cs r2 where
      e: "prune_entry E src destination p n r = Inr (b, c, r1)"
      and s: "prune_scan E src destination ps r1 = Inr (cs, r2)"
      and x: "x = ((case c of None \<Rightarrow> [] | Some y \<Rightarrow> [y]) @ cs, r2)"
      by (auto split: sum.splits)
    from prune_entry_returns [OF e] Cons.IH [OF s] show ?thesis
      using Some x by simp
  qed
qed simp


lemma prune_destination_returns:
  "prune_destination E src destination r = Inr r' \<Longrightarrow>
     prune_destination_ok E src destination r = r'"
  by (auto simp: prune_destination_def prune_destination_ok_def split: sum.splits
      dest!: prune_scan_returns)


lemma synchronize_Inr:
  assumes "synchronize E options source destination source_root d = Inr r"
  obtains src d1 where "source_root = Some src" "validate_inputs E source_root d = None"
    "ensure_destination_root E d = Some d1" "\<not> same_location src d1"
    "r = (if remove_extraneous options
          then prune_destination_ok E src destination
                 (copy_from_source_ok E source destination src (start d1))
          else copy_from_source_ok E source destination src (start d1))"
proof -
  from assms obtain src d1 rc where 1: "source_root = Some src"
    "validate_inputs E source_root d = None" "ensure_destination_root E d = Some d1"
    "\<not> same_location src d1"
    and rc: "copy_from_source E source destination src (start d1) = Inr rc"
    and r: "if remove_extraneous options then prune_destination E src destination rc = Inr r
            else r = rc"
    by (auto simp: synchronize_def split: option.splits if_splits sum.splits)
  have "copy_from_source_ok E source destination src (start d1) = rc"
    using rc by (simp add: copy_from_source_def copy_from_source_ok_def copy_tree_returns)
  moreover have "prune_destination_ok E src destination rc = r" if "remove_extraneous options"
    using r that by (simp add: prune_destination_returns)
  ultimately show ?thesis using 1 r by (intro that) auto
qed

lemma synchronize_stages:
  assumes "synchronize E options source destination (Some src) d = Inr r"
  obtains d1 rc where "ensure_destination_root E d = Some d1"
    "copy_from_source E source destination src (start d1) = Inr rc"
    "rc = copy_from_source_ok E source destination src (start d1)"
    "remove_extraneous options \<longrightarrow> prune_destination E src destination rc = Inr r"
    "\<not> remove_extraneous options \<longrightarrow> r = rc"
proof -
  from assms obtain d1 rc where 1: "ensure_destination_root E d = Some d1"
    and rc: "copy_from_source E source destination src (start d1) = Inr rc"
    and r: "if remove_extraneous options then prune_destination E src destination rc = Inr r
            else r = rc"
    by (auto simp: synchronize_def split: option.splits if_splits sum.splits)
  have "rc = copy_from_source_ok E source destination src (start d1)"
    using rc by (simp add: copy_from_source_def copy_from_source_ok_def copy_tree_returns)
  then show ?thesis using 1 rc r by (intro that) auto
qed








section \<open>The freshness comparison\<close>






section \<open>The counters and the list of synced entries\<close>

lemma counts_agree_simps [simp]:
  "counts_agree (warn w r) = counts_agree r"
  "counts_agree (log_lstat_error p r) = counts_agree r"
  "counts_agree (skipped r) = counts_agree r"
  "counts_agree (scanned r) = counts_agree r"
  "counts_agree (r\<lparr>dst := d\<rparr>) = counts_agree r"
  by (simp_all add: counts_agree_def)

lemma should_copy_stats:
  "should_copy_ok E destination rel src_meta r = (b, r') \<Longrightarrow> stats r' = stats r"
  by (auto simp: should_copy_ok_def collect_metadata_def split: if_splits option.splits prod.splits)

lemma do_copy_counts: "counts_agree r \<Longrightarrow> counts_agree (do_copy E destination rel n src_meta r)"
  by (auto simp: do_copy_def counts_agree_def split: option.splits)

lemma copy_entry_counts:
  assumes "counts_agree r"
  shows "counts_agree (snd (copy_entry_ok E source destination rel n r))"
proof -
  have sc: "\<And>b r' m. should_copy_ok E destination rel m (scanned r) = (b, r') \<Longrightarrow> counts_agree r'"
    using should_copy_stats assms by (fastforce simp: counts_agree_def)
  show ?thesis
    using assms
    by (auto simp: copy_entry_ok_def collect_metadata_def do_copy_counts
        split: option.splits prod.splits bool.splits dest!: sc)
      (auto simp: counts_agree_def)
qed

lemma copy_tree_counts:
  "counts_agree r \<Longrightarrow> counts_agree (copy_tree_ok E source destination dir t r)"
  "counts_agree r \<Longrightarrow> counts_agree (copy_forest_ok E source destination dir ts r)"
proof (induction E source destination dir t r and E source destination dir ts r
    rule: copy_tree_ok_copy_forest_ok.induct)
  case (1 E source destination dir x n ts r)
  have "counts_agree (snd (copy_entry_ok E source destination (dir @ [x]) n r))"
    using 1 by (simp add: copy_entry_counts)
  then show ?case using 1 by (auto split: prod.splits)
qed simp_all

lemma prune_entry_stats:
  "prune_entry_ok E src destination rel n r = (b, c, r') \<Longrightarrow> stats r' = stats r \<and> dst r' = dst r"
  by (auto simp: prune_entry_ok_def collect_metadata_def split: if_splits option.splits prod.splits)

lemma prune_scan_stats:
  "prune_scan_ok E src destination ps r = (cs, r') \<Longrightarrow> stats r' = stats r \<and> dst r' = dst r"
proof (induction ps arbitrary: r cs r')
  case (Cons p ps)
  then show ?case
    by (auto split: option.splits prod.splits dest!: prune_entry_stats)
qed simp

lemma remove_candidate_synced:
  "synced_entries (stats (remove_candidate E destination c r)) = synced_entries (stats r)"
  "files_copied (stats (remove_candidate E destination c r)) = files_copied (stats r)"
  "directories_created (stats (remove_candidate E destination c r)) =
     directories_created (stats r)"
  by (auto simp: remove_candidate_def split: option.splits prod.splits)

lemma remove_candidate_counts [simp]:
  "counts_agree (remove_candidate E destination c r) = counts_agree r"
  by (simp add: counts_agree_def remove_candidate_synced)

lemma remove_candidates_counts [simp]:
  "counts_agree (remove_candidates E destination cs r) = counts_agree r"
  by (induction cs arbitrary: r) simp_all

lemma prune_destination_counts:
  "counts_agree r \<Longrightarrow> counts_agree (prune_destination_ok E src destination r)"
  by (auto simp: prune_destination_ok_def counts_agree_def [of r] split: prod.splits
      dest!: prune_scan_stats)
    (simp add: counts_agree_def)

text \<open>
  C10. The length of \<open>synced_entries\<close> is \<open>files_copied + directories_created\<close>: the
  body of the copy loop keeps the equality for every entry, from any state, whether it
  returns or throws, and it holds in the statistics of every run that \<open>synchronize\<close>
  returns.
\<close>

theorem synced_length_is_copied_plus_created:
  "(counts_agree r \<longrightarrow>
      (case copy_entry E source destination rel n r of
         Inl (e, r1) \<Rightarrow> counts_agree r1
       | Inr (b, r1) \<Rightarrow> counts_agree r1)) \<and>
   (synchronize E options source destination source_root d = Inr r' \<longrightarrow>
      length (synced_entries (stats r')) =
        files_copied (stats r') + directories_created (stats r'))"
proof (intro conjI impI)
  assume c: "counts_agree r"
  show "case copy_entry E source destination rel n r of
         Inl (e, r1) \<Rightarrow> counts_agree r1
       | Inr (b, r1) \<Rightarrow> counts_agree r1"
  proof (cases "copy_entry E source destination rel n r")
    case (Inl a)
    obtain e r1 where a: "a = (e, r1)" by (cases a)
    from copy_entry_throws [OF Inl [unfolded a]] have "stats r1 = stats (scanned r)" by simp
    then have "counts_agree r1" using c by (simp add: counts_agree_def)
    then show ?thesis using Inl a by simp
  next
    case (Inr a)
    obtain b r1 where a: "a = (b, r1)" by (cases a)
    from copy_entry_returns [OF Inr] copy_entry_counts [OF c, of E source destination rel n]
    have "counts_agree r1" using a by simp
    then show ?thesis using Inr a by simp
  qed
next
  assume "synchronize E options source destination source_root d = Inr r'"
  then obtain src d1 where r': "r' = (if remove_extraneous options
          then prune_destination_ok E src destination
                 (copy_from_source_ok E source destination src (start d1))
          else copy_from_source_ok E source destination src (start d1))"
    by (rule synchronize_Inr)
  have "counts_agree (start d1)"
    by (simp add: counts_agree_def SyncStats_init_def start_def)
  then have "counts_agree (copy_from_source_ok E source destination src (start d1))"
    by (simp add: copy_from_source_ok_def copy_tree_counts)
  then have "counts_agree r'"
    by (simp add: r' prune_destination_counts)
  then show "length (synced_entries (stats r')) =
      files_copied (stats r') + directories_created (stats r')"
    by (simp add: counts_agree_def)
qed

lemma scenario_run_Inr: "scenario_run = Inr (projr scenario_run)"
proof -
  have "\<not> isl scenario_run" by code_simp
  then show ?thesis by (cases scenario_run) auto
qed


theorem synced_length_is_copied_plus_created_witness:
  "counts_agree (start scenario_destination) \<and>
   \<not> isl (copy_entry quiet [''source_base''] [''dest''] [''file1.txt'']
            (ex_reg 11 1 20) (start scenario_destination)) \<and>
   counts_agree (snd (projr (copy_entry quiet [''source_base''] [''dest''] [''file1.txt'']
                               (ex_reg 11 1 20) (start scenario_destination)))) \<and>
   scenario_run = Inr (projr scenario_run) \<and>
   length (synced_entries (stats (projr scenario_run))) =
     files_copied (stats (projr scenario_run)) + directories_created (stats (projr scenario_run))"
proof -
  have 1: "counts_agree (start scenario_destination)"
    by (simp add: counts_agree_def start_def SyncStats_init_def)
  have 2: "\<not> isl (copy_entry quiet [''source_base''] [''dest''] [''file1.txt'']
            (ex_reg 11 1 20) (start scenario_destination))"
    by code_simp
  then obtain b r1 where e: "copy_entry quiet [''source_base''] [''dest''] [''file1.txt'']
            (ex_reg 11 1 20) (start scenario_destination) = Inr (b, r1)"
    by (cases "copy_entry quiet [''source_base''] [''dest''] [''file1.txt'']
            (ex_reg 11 1 20) (start scenario_destination)") auto
  note t = synced_length_is_copied_plus_created [of "start scenario_destination" quiet
        "[''source_base'']" "[''dest'']" "[''file1.txt'']" "ex_reg 11 1 20"
        "\<lparr>remove_extraneous = True\<rparr>" "Some scenario_source" scenario_destination
        "projr scenario_run"]
  have 3: "counts_agree r1" using t 1 unfolding e by simp
  have 4: "length (synced_entries (stats (projr scenario_run))) =
     files_copied (stats (projr scenario_run)) + directories_created (stats (projr scenario_run))"
    using t scenario_run_Inr unfolding scenario_run_def by simp
  have "snd (projr (copy_entry quiet [''source_base''] [''dest''] [''file1.txt'']
            (ex_reg 11 1 20) (start scenario_destination))) = r1"
    by (simp only: e sum.sel snd_conv)
  then show ?thesis using 1 2 3 4 scenario_run_Inr by simp
qed

section \<open>The destination listing\<close>

lemma map_of_drop_subtree [simp]:
  "map_of (drop_subtree p d) q = (if prefix p q then None else map_of d q)"
  unfolding drop_subtree_def by (induction d) auto

lemma map_of_fs_put [simp]: "map_of (fs_put p n d) q = (if q = p then Some n else map_of d q)"
proof (cases "p \<in> fst ` set d")
  case True
  have "map_of (map (\<lambda>e. if fst e = p then (p, n) else e) d) q =
      (if q = p then map_option (\<lambda>_. n) (map_of d p) else map_of d q)"
    by (induction d) auto
  moreover have "map_of d p \<noteq> None"
    using True by (simp add: map_of_eq_None_iff)
  ultimately show ?thesis using True by (auto simp: fs_put_def)
next
  case False
  then have "map_of d p = None" by (simp add: map_of_eq_None_iff)
  then show ?thesis using False by (auto simp: fs_put_def map_add_def split: option.splits)
qed





lemma remove_all_frame:
  "remove_all E p d = Some (k, d') \<Longrightarrow> \<not> prefix p q \<Longrightarrow> map_of d' q = map_of d q"
  by (auto simp: remove_all_def split: if_splits option.splits)

lemma fs_remove_frame:
  "fs_remove E p d = Some (b, d') \<Longrightarrow> \<not> prefix p q \<Longrightarrow> map_of d' q = map_of d q"
  by (auto simp: fs_remove_def split: if_splits option.splits)

lemma remove_all_shrinks:
  "remove_all E p d = Some (k, d') \<Longrightarrow> map_of d' q = None \<or> map_of d' q = map_of d q"
  by (auto simp: remove_all_def split: if_splits option.splits)

lemma fs_remove_shrinks:
  "fs_remove E p d = Some (b, d') \<Longrightarrow> map_of d' q = None \<or> map_of d' q = map_of d q"
  by (auto simp: fs_remove_def split: if_splits option.splits)

lemma remove_all_gone: "remove_all E p d = Some (k, d') \<Longrightarrow> map_of d' p = None"
  by (auto simp: remove_all_def split: if_splits option.splits)

lemma fs_remove_gone: "fs_remove E p d = Some (b, d') \<Longrightarrow> map_of d' p = None"
  by (auto simp: fs_remove_def split: if_splits option.splits)


section \<open>What the copy stage appends to the synced entries\<close>



lemma copy_entry_existing_directory:
  assumes "S_ISDIR (st_mode (lst n))" "\<not> src_lstat_fails E rel" "\<not> src_relative_fails E rel"
    "fs_exists (dst r) rel"
  shows "copy_entry_ok E source destination rel n r = (True, scanned r)"
  using assms
  by (simp add: copy_entry_ok_def collect_metadata_def src_lstat_def S_ISDIR_not_LNK)





section \<open>Failures of single entries in the copy stage\<close>


text \<open>
  C8. Failures of single entries in the copy stage are meant to be logged and passed
  over, the run going on to the next entry. The handler of a failed \<open>lstat\<close> does so
  for an entry whose type the directory listing knows, such as the directory \<open>dirA\<close>
  of the scenario. But it asks \<open>entry.is_directory()\<close> outside any \<open>try\<close> block (line
  81), and for a symbolic link that is a \<open>stat\<close> of its own: where \<open>lstat\<close> fails because
  the directory denies search permission, the \<open>stat\<close> fails as well and its exception
  leaves \<open>synchronize\<close>. The run has created \<open>sub\<close> in the destination and returns no
  statistics; the file \<open>a\<close> after \<open>sub\<close> is never visited. The scenario with \<open>lstat\<close>
  failing on \<open>dirA\<close>, and with the copy of \<open>file1.txt\<close> failing, runs to its end with
  one warning.
\<close>

theorem unreadable_symlink_aborts_run:
  "src_lstat_fails status_denied [''sub'', ''ln''] \<and>
   unreadable_run =
     Inl (FilesystemError, empty_destination @ [([''sub''], new_dir status_denied [''sub''])]) \<and>
   lstat_denied_run = Inr (projr lstat_denied_run) \<and>
   cerr (projr lstat_denied_run) = [LstatError [''source_base'', ''dirA'']] \<and>
   copy_denied_run = Inr (projr copy_denied_run) \<and>
   cerr (projr copy_denied_run) = [CopyFailed [''dest'', ''file1.txt'']] \<and>
   files_copied (stats (projr copy_denied_run)) = 1"
  by code_simp

section \<open>What the copy stage leaves alone\<close>











section \<open>The order of removal\<close>

lemma prune_entry_candidate:
  assumes "prune_entry_ok E src destination p n r = (b, Some c, r')" "map_of (dst r) p = Some n"
  shows "rc_path c = p \<and> rc_depth c = length destination + length p \<and>
         rc_is_directory c = S_ISDIR (st_mode (lst n)) \<and>
         \<not> S_ISLNK (st_mode (lst n)) \<and> \<not> src_exists src p \<and>
         \<not> dst_lstat_fails E p \<and> \<not> dst_relative_fails E p"
  using assms
  by (auto simp: prune_entry_ok_def collect_metadata_def dst_lstat_def
      split: option.splits if_splits)

lemma prune_scan_candidates:
  assumes "prune_scan_ok E src destination ps r = (cs, r')" "c \<in> set cs"
  shows "rc_path c \<in> set ps \<and> rc_depth c = length destination + length (rc_path c) \<and>
         (\<exists>n. map_of (dst r) (rc_path c) = Some n \<and> rc_is_directory c = S_ISDIR (st_mode (lst n)) \<and>
              \<not> S_ISLNK (st_mode (lst n))) \<and>
         \<not> src_exists src (rc_path c)"
  using assms
proof (induction ps arbitrary: r cs r')
  case (Cons p ps)
  show ?case
  proof (cases "map_of (dst r) p")
    case None
    then show ?thesis using Cons by auto
  next
    case (Some n)
    obtain b x r1 where e: "prune_entry_ok E src destination p n r = (b, x, r1)"
      by (cases "prune_entry_ok E src destination p n r")
    obtain cs1 r2 where s: "prune_scan_ok E src destination ps r1 = (cs1, r2)"
      by (cases "prune_scan_ok E src destination ps r1")
    have d: "dst r1 = dst r" using prune_entry_stats [OF e] by simp
    have cs: "cs = (case x of None \<Rightarrow> [] | Some y \<Rightarrow> [y]) @ cs1"
      using Cons.prems(1) Some e s by simp
    show ?thesis
    proof (cases "c \<in> set cs1")
      case True
      from Cons.IH [OF s True] show ?thesis by (simp add: d)
    next
      case False
      then have x: "x = Some c" using cs Cons.prems(2) by (auto split: option.splits)
      from prune_entry_candidate [OF e [unfolded x] Some] show ?thesis using Some by auto
    qed
  qed
qed simp

lemma sorted_deepest_first:
  "sorted_wrt (\<lambda>a b. rc_depth b \<le> rc_depth a) (sort_candidates cs)"
proof -
  have "sorted (map (\<lambda>c. - int (rc_depth c)) (sort_candidates cs))"
    unfolding sort_candidates_def by (rule sorted_sort_key)
  then show ?thesis
    by (simp add: sorted_map)
qed

lemma descendants_come_first:
  assumes "sorted_wrt (\<lambda>a b. rc_depth b \<le> rc_depth a) cs"
    and "\<forall>c \<in> set cs. rc_depth c = k + length (rc_path c)"
    and "i < length cs" "j < length cs"
    and "strict_prefix (rc_path (cs ! i)) (rc_path (cs ! j))"
  shows "j < i"
proof (rule ccontr)
  assume "\<not> j < i"
  moreover have "i \<noteq> j" using assms(5) by auto
  ultimately have "i < j" by simp
  then have "rc_depth (cs ! j) \<le> rc_depth (cs ! i)"
    using assms(1,4) by (simp add: sorted_wrt_iff_nth_less)
  moreover have "length (rc_path (cs ! i)) < length (rc_path (cs ! j))"
    using assms(5) by (rule prefix_length_less)
  ultimately show False using assms(2,3,4) by (simp add: nth_mem)
qed

text \<open>
  C3. The prune stage removes the candidates in the order \<open>sort_candidates\<close> gives
  them: a permutation of the candidates found, deepest first by the number of
  components of the full path. In it a candidate below another candidate comes
  strictly before that one, so no directory is removed while a candidate below it is
  still to come.
\<close>

theorem candidates_removed_deepest_first:
  assumes "prune_scan E src destination (prune_walk E src destination r) r =
             Inr (candidates, r')"
  shows "prune_destination E src destination r =
           Inr (remove_candidates E destination (sort_candidates candidates) r') \<and>
         mset (sort_candidates candidates) = mset candidates \<and>
         sorted_wrt (\<lambda>a b. rc_depth b \<le> rc_depth a) (sort_candidates candidates) \<and>
         (\<forall>c \<in> set candidates. rc_depth c = length (destination @ rc_path c)) \<and>
         (\<forall>i j. i < length candidates \<and> j < length candidates \<and>
                strict_prefix (rc_path (sort_candidates candidates ! i))
                              (rc_path (sort_candidates candidates ! j)) \<longrightarrow> j < i)"
proof -
  have ok: "prune_scan_ok E src destination (prune_walk E src destination r) r =
      (candidates, r')"
    using assms by (rule prune_scan_returns)
  have d: "\<forall>c \<in> set (sort_candidates candidates). rc_depth c = length destination + length (rc_path c)"
    using prune_scan_candidates [OF ok] by (simp add: sort_candidates_def)
  have "j < i" if "i < length candidates" "j < length candidates"
    "strict_prefix (rc_path (sort_candidates candidates ! i))
                              (rc_path (sort_candidates candidates ! j))" for i j
    using sorted_deepest_first d _ _ that(3)
    by (rule descendants_come_first) (simp_all add: that sort_candidates_def)
  then show ?thesis
    using assms sorted_deepest_first d
    by (auto simp: prune_destination_def sort_candidates_def)
qed

theorem candidates_removed_deepest_first_witness:
  "prune_scan quiet replace_source [''d'']
       (prune_walk quiet replace_source [''d''] (start nested_destination))
       (start nested_destination) = Inr (nested_candidates, start nested_destination) \<and>
   map rc_path (sort_candidates nested_candidates) = [[''old'', ''f''], [''old'']] \<and>
   strict_prefix (rc_path (sort_candidates nested_candidates ! 1))
                 (rc_path (sort_candidates nested_candidates ! 0)) \<and>
   prune_destination quiet replace_source [''d''] (start nested_destination) =
     Inr (remove_candidates quiet [''d''] (sort_candidates nested_candidates)
            (start nested_destination))"
proof -
  have 1: "prune_scan quiet replace_source [''d'']
       (prune_walk quiet replace_source [''d''] (start nested_destination))
       (start nested_destination) = Inr (nested_candidates, start nested_destination)"
    by code_simp
  have 2: "map rc_path (sort_candidates nested_candidates) = [[''old'', ''f''], [''old'']]"
    by code_simp
  have 3: "strict_prefix (rc_path (sort_candidates nested_candidates ! 1))
                 (rc_path (sort_candidates nested_candidates ! 0))"
    by code_simp
  show ?thesis
    using candidates_removed_deepest_first [OF 1] 1 2 3 by simp
qed

section \<open>Validation\<close>






section \<open>What the prune stage removes and what it leaves\<close>

lemma t_lookup_prefix:
  "t_lookup t (q @ rest) = Some n \<Longrightarrow>
     \<exists>m. t_lookup t q = Some m \<and> (rest \<noteq> [] \<longrightarrow> obj_is_directory m)"
proof (induction q arbitrary: t)
  case Nil
  then show ?case by (cases rest) (auto split: if_splits)
next
  case (Cons x q)
  then show ?case by (auto split: if_splits option.splits)
qed

lemma obj_is_directory_exists: "obj_is_directory m \<Longrightarrow> follow m \<noteq> None"
  by (auto simp: obj_is_directory_def split: option.splits)

lemma src_exists_prefix:
  assumes "src_exists t p" "prefix q p"
  shows "src_exists t q"
proof -
  from assms(2) obtain rest where p: "p = q @ rest" by (auto simp: prefix_def)
  from assms(1) obtain n where n: "t_lookup t (q @ rest) = Some n" "follow n \<noteq> None"
    by (auto simp: src_exists_def p split: option.splits)
  from t_lookup_prefix [OF n(1)] obtain m where
    m: "t_lookup t q = Some m" "rest \<noteq> [] \<longrightarrow> obj_is_directory m" by blast
  show ?thesis
  proof (cases "rest = []")
    case True
    then show ?thesis using assms(1) p by simp
  next
    case False
    then show ?thesis using m obj_is_directory_exists by (auto simp: src_exists_def)
  qed
qed

lemma remove_candidate_shrinks:
  "map_of (dst (remove_candidate E destination c r)) q = None \<or>
   map_of (dst (remove_candidate E destination c r)) q = map_of (dst r) q"
  using remove_all_shrinks [of E "rc_path c" "dst r" _ _ q]
    fs_remove_shrinks [of E "rc_path c" "dst r" _ _ q]
  by (auto simp: remove_candidate_def split: option.splits prod.splits)

lemma remove_candidate_frame:
  "\<not> prefix (rc_path c) q \<Longrightarrow>
   map_of (dst (remove_candidate E destination c r)) q = map_of (dst r) q"
  by (auto simp: remove_candidate_def split: option.splits prod.splits
      dest: remove_all_frame fs_remove_frame)

lemma remove_candidate_gone:
  assumes "\<not> remove_fails E (rc_path c)"
    and "\<forall>n. map_of (dst r) (rc_path c) = Some n \<longrightarrow> rc_is_directory c = S_ISDIR (st_mode (lst n))"
  shows "map_of (dst (remove_candidate E destination c r)) (rc_path c) = None"
proof (cases "rc_is_directory c")
  case True
  then show ?thesis
    using assms(1)
    by (auto simp: remove_candidate_def remove_all_def split: option.splits)
next
  case False
  then have "fs_remove E (rc_path c) (dst r) \<noteq> None"
    using assms by (auto simp: fs_remove_def split: option.splits)
  then show ?thesis
    using False by (auto simp: remove_candidate_def dest: fs_remove_gone)
qed

lemma remove_candidates_shrinks:
  "map_of (dst (remove_candidates E destination cs r)) q = None \<or>
   map_of (dst (remove_candidates E destination cs r)) q = map_of (dst r) q"
proof (induction cs arbitrary: r)
  case (Cons c cs)
  then show ?case
    using remove_candidate_shrinks [of E destination c r q] by (auto; metis)
qed simp

lemma remove_candidates_frame:
  "\<forall>c \<in> set cs. \<not> prefix (rc_path c) q \<Longrightarrow>
   map_of (dst (remove_candidates E destination cs r)) q = map_of (dst r) q"
  by (induction cs arbitrary: r) (simp_all add: remove_candidate_frame)

lemma remove_candidates_gone:
  assumes "c \<in> set cs" "\<not> remove_fails E (rc_path c)"
    and "\<forall>n. map_of (dst r) (rc_path c) = Some n \<longrightarrow> rc_is_directory c = S_ISDIR (st_mode (lst n))"
  shows "map_of (dst (remove_candidates E destination cs r)) (rc_path c) = None"
  using assms
proof (induction cs arbitrary: r)
  case (Cons a cs)
  show ?case
  proof (cases "a = c")
    case True
    have "map_of (dst (remove_candidate E destination c r)) (rc_path c) = None"
      using Cons.prems(2,3) by (rule remove_candidate_gone)
    then show ?thesis
      using True remove_candidates_shrinks [of E destination cs "remove_candidate E destination c r" "rc_path c"]
      by auto
  next
    case False
    then have "c \<in> set cs" using Cons.prems(1) by simp
    moreover have "\<forall>n. map_of (dst (remove_candidate E destination a r)) (rc_path c) = Some n \<longrightarrow>
        rc_is_directory c = S_ISDIR (st_mode (lst n))"
      using Cons.prems(3) remove_candidate_shrinks [of E destination a r "rc_path c"] by auto
    ultimately show ?thesis using Cons.IH Cons.prems(2) by simp
  qed
qed simp

lemma prune_entry_finds:
  assumes "map_of (dst r) p = Some n" "\<not> S_ISLNK (st_mode (lst n))" "\<not> dst_lstat_fails E p"
    "\<not> dst_relative_fails E p" "\<not> src_exists src p"
  shows "fst (snd (prune_entry_ok E src destination p n r)) =
           Some \<lparr>rc_path = p, rc_is_directory = S_ISDIR (st_mode (lst n)),
                  rc_depth = length (destination @ p)\<rparr>"
  using assms by (simp add: prune_entry_ok_def collect_metadata_def dst_lstat_def)

lemma prune_scan_finds:
  assumes "prune_scan_ok E src destination ps r = (cs, r')" "p \<in> set ps"
    "map_of (dst r) p = Some n" "\<not> S_ISLNK (st_mode (lst n))" "\<not> dst_lstat_fails E p"
    "\<not> dst_relative_fails E p" "\<not> src_exists src p"
  shows "\<lparr>rc_path = p, rc_is_directory = S_ISDIR (st_mode (lst n)),
           rc_depth = length (destination @ p)\<rparr> \<in> set cs"
  using assms(1-3)
proof (induction ps arbitrary: r cs r')
  case (Cons a ps)
  show ?case
  proof (cases "map_of (dst r) a")
    case None
    then have "a \<noteq> p" using Cons.prems(3) by auto
    then show ?thesis using Cons None by auto
  next
    case (Some m)
    obtain b x r1 where e: "prune_entry_ok E src destination a m r = (b, x, r1)"
      by (cases "prune_entry_ok E src destination a m r")
    obtain cs1 r2 where s: "prune_scan_ok E src destination ps r1 = (cs1, r2)"
      by (cases "prune_scan_ok E src destination ps r1")
    have d: "dst r1 = dst r" using prune_entry_stats [OF e] by simp
    have cs: "cs = (case x of None \<Rightarrow> [] | Some y \<Rightarrow> [y]) @ cs1"
      using Cons.prems(1) Some e s by simp
    show ?thesis
    proof (cases "a = p")
      case True
      then have "m = n" using Some Cons.prems(3) by simp
      then have "x = Some \<lparr>rc_path = p, rc_is_directory = S_ISDIR (st_mode (lst n)),
           rc_depth = length (destination @ p)\<rparr>"
        using prune_entry_finds [OF Cons.prems(3) assms(4-7), of destination] e True by simp
      then show ?thesis using cs by simp
    next
      case False
      then have "p \<in> set ps" using Cons.prems(2) by simp
      from Cons.IH [OF s this] Cons.prems(3) d show ?thesis using cs by simp
    qed
  qed
qed simp

lemma prune_walk_iff:
  "p \<in> set (prune_walk E src destination r) \<longleftrightarrow>
     prune_reaches E src destination r p \<and> map_of (dst r) p \<noteq> None"
  by (auto simp: prune_walk_def map_of_eq_None_iff)

lemma prune_reaches_nonempty: "prune_reaches E src destination r p \<Longrightarrow> p \<noteq> []"
  by (simp add: prune_reaches_def)

lemma prune_destination_removes:
  assumes "map_of (dst r) p = Some n" "prune_reaches E src destination r p"
    "\<not> S_ISLNK (st_mode (lst n))" "\<not> dst_lstat_fails E p" "\<not> dst_relative_fails E p"
    "\<not> remove_fails E p" "\<not> src_exists src p"
  shows "map_of (dst (prune_destination_ok E src destination r)) p = None"
proof -
  obtain cs r' where s: "prune_scan_ok E src destination (prune_walk E src destination r) r = (cs, r')"
    by (cases "prune_scan_ok E src destination (prune_walk E src destination r) r")
  let ?c = "\<lparr>rc_path = p, rc_is_directory = S_ISDIR (st_mode (lst n)),
           rc_depth = length (destination @ p)\<rparr>"
  have "p \<in> set (prune_walk E src destination r)"
    using assms(1,2) by (simp add: prune_walk_iff)
  from prune_scan_finds [OF s this assms(1,3,4,5,7)]
  have "?c \<in> set (sort_candidates cs)" by (simp add: sort_candidates_def)
  moreover have "dst r' = dst r" using prune_scan_stats [OF s] by simp
  ultimately have "map_of (dst (remove_candidates E destination (sort_candidates cs) r')) (rc_path ?c) = None"
    using assms(1,6) by (intro remove_candidates_gone) auto
  then show ?thesis by (simp add: prune_destination_ok_def s)
qed

lemma prune_destination_shrinks:
  "map_of (dst (prune_destination_ok E src destination r)) q = None \<or>
   map_of (dst (prune_destination_ok E src destination r)) q = map_of (dst r) q"
proof -
  obtain cs r' where s: "prune_scan_ok E src destination (prune_walk E src destination r) r = (cs, r')"
    by (cases "prune_scan_ok E src destination (prune_walk E src destination r) r")
  have "dst r' = dst r" using prune_scan_stats [OF s] by simp
  then show ?thesis
    using remove_candidates_shrinks [of E destination "sort_candidates cs" r' q]
    by (simp add: prune_destination_ok_def s)
qed

lemma prune_destination_keeps:
  assumes "map_of (dst r) p = Some n"
    and "\<forall>q. prefix q p \<and> q \<noteq> [] \<and> \<not> src_exists src q \<longrightarrow>
           (\<exists>m. map_of (dst r) q = Some m \<and> S_ISLNK (st_mode (lst m)))"
  shows "map_of (dst (prune_destination_ok E src destination r)) p = Some n"
proof -
  obtain cs r' where s: "prune_scan_ok E src destination (prune_walk E src destination r) r = (cs, r')"
    by (cases "prune_scan_ok E src destination (prune_walk E src destination r) r")
  have d: "dst r' = dst r" using prune_scan_stats [OF s] by simp
  have "\<not> prefix (rc_path c) p" if "c \<in> set (sort_candidates cs)" for c
  proof
    assume pre: "prefix (rc_path c) p"
    have c: "c \<in> set cs" using that by (simp add: sort_candidates_def)
    from prune_scan_candidates [OF s c] obtain m where
      m: "rc_path c \<in> set (prune_walk E src destination r)"
        "map_of (dst r) (rc_path c) = Some m" "\<not> S_ISLNK (st_mode (lst m))"
        "\<not> src_exists src (rc_path c)" by blast
    have "rc_path c \<noteq> []" using m(1) by (auto simp: prune_walk_iff dest: prune_reaches_nonempty)
    with assms(2) pre m show False by auto
  qed
  then have "map_of (dst (remove_candidates E destination (sort_candidates cs) r')) p = map_of (dst r') p"
    by (intro remove_candidates_frame) auto
  then show ?thesis using assms(1) d by (simp add: prune_destination_ok_def s)
qed

text \<open>
  C2, as the code has it. With \<open>remove_extraneous\<close> true the run is the copy stage
  followed by the prune stage. Of the destination as the prune stage finds it, every
  entry with no source counterpart that the walk reaches, that is no symbolic link, and
  on which neither \<open>lstat\<close>, nor the relative path, nor the removal fails, is absent after
  the run; every entry whose path exists in the source is left as it was by the
  prune stage; and the prune stage adds nothing, so what the copy stage has already
  removed stays absent.
\<close>

theorem prune_removes_extraneous_and_keeps_mirrored:
  assumes "synchronize E options source destination (Some src) d = Inr r"
    and "remove_extraneous options"
  shows "\<exists>d1 rc. ensure_destination_root E d = Some d1 \<and>
           copy_from_source E source destination src (start d1) = Inr rc \<and>
           prune_destination E src destination rc = Inr r \<and>
           (\<forall>p n. map_of (dst rc) p = Some n \<and> \<not> src_exists src p \<and>
                  prune_reaches E src destination rc p \<and> \<not> S_ISLNK (st_mode (lst n)) \<and>
                  \<not> dst_lstat_fails E p \<and> \<not> dst_relative_fails E p \<and> \<not> remove_fails E p \<longrightarrow>
                  map_of (dst r) p = None) \<and>
           (\<forall>p n. map_of (dst rc) p = Some n \<and> src_exists src p \<longrightarrow>
                  map_of (dst r) p = Some n) \<and>
           (\<forall>p. map_of (dst rc) p = None \<longrightarrow> map_of (dst r) p = None)"
proof -
  from assms(1) obtain d1 rc where d1: "ensure_destination_root E d = Some d1"
    and rc: "copy_from_source E source destination src (start d1) = Inr rc"
    and pr: "remove_extraneous options \<longrightarrow> prune_destination E src destination rc = Inr r"
    by (auto elim!: synchronize_stages)
  have p: "prune_destination E src destination rc = Inr r" using pr assms(2) by simp
  then have r: "r = prune_destination_ok E src destination rc"
    by (simp add: prune_destination_returns)
  have "map_of (dst r) p = Some n" if "map_of (dst rc) p = Some n" "src_exists src p" for p n
    unfolding r using that(1)
  proof (rule prune_destination_keeps)
    show "\<forall>q. prefix q p \<and> q \<noteq> [] \<and> \<not> src_exists src q \<longrightarrow>
           (\<exists>m. map_of (dst rc) q = Some m \<and> S_ISLNK (st_mode (lst m)))"
      using src_exists_prefix [OF that(2)] by blast
  qed
  moreover have "map_of (dst r) p = None" if "map_of (dst rc) p = None" for p
    using that prune_destination_shrinks [of E src destination rc p] by (simp add: r)
  moreover have "map_of (dst r) p = None"
    if "map_of (dst rc) p = Some n" "\<not> src_exists src p" "prune_reaches E src destination rc p"
      "\<not> S_ISLNK (st_mode (lst n))" "\<not> dst_lstat_fails E p" "\<not> dst_relative_fails E p"
      "\<not> remove_fails E p" for p n
    unfolding r using that(1,3,4,5,6,7,2) by (rule prune_destination_removes)
  ultimately show ?thesis
    using d1 rc p by blast
qed

theorem prune_removes_extraneous_and_keeps_mirrored_witness:
  "scenario_run = Inr (projr scenario_run) \<and>
   remove_extraneous \<lparr>remove_extraneous = True\<rparr> \<and>
   map_of (dst (projr scenario_run)) [''extra.txt''] = None \<and>
   map_of (dst (projr scenario_run)) [''dirA'', ''file2.txt''] = Some (ex_reg 23 5 10)"
proof -
  let ?rc = "projr (copy_from_source quiet [''source_base''] [''dest''] scenario_source
               (start scenario_destination))"
  have e: "ensure_destination_root quiet scenario_destination = Some scenario_destination"
    by code_simp
  have "\<not> isl (copy_from_source quiet [''source_base''] [''dest''] scenario_source
               (start scenario_destination))"
    by code_simp
  then have c: "copy_from_source quiet [''source_base''] [''dest''] scenario_source
               (start scenario_destination) = Inr ?rc"
    by (cases "copy_from_source quiet [''source_base''] [''dest''] scenario_source
               (start scenario_destination)") auto
  have 1: "map_of (dst ?rc) [''extra.txt''] = Some (ex_reg 24 3 3) \<and>
      \<not> src_exists scenario_source [''extra.txt''] \<and>
      prune_reaches quiet scenario_source [''dest''] ?rc [''extra.txt''] \<and>
      \<not> S_ISLNK (st_mode (lst (ex_reg 24 3 3))) \<and> \<not> dst_lstat_fails quiet [''extra.txt''] \<and>
      \<not> dst_relative_fails quiet [''extra.txt''] \<and> \<not> remove_fails quiet [''extra.txt'']"
    by code_simp
  have 2: "map_of (dst ?rc) [''dirA'', ''file2.txt''] = Some (ex_reg 23 5 10) \<and>
      src_exists scenario_source [''dirA'', ''file2.txt'']"
    by code_simp
  from prune_removes_extraneous_and_keeps_mirrored [of quiet "\<lparr>remove_extraneous = True\<rparr>"
      "[''source_base'']" "[''dest'']" scenario_source scenario_destination "projr scenario_run"]
    scenario_run_Inr
  obtain d1 rc where a: "ensure_destination_root quiet scenario_destination = Some d1"
    "copy_from_source quiet [''source_base''] [''dest''] scenario_source (start d1) = Inr rc"
    "\<forall>p n. map_of (dst rc) p = Some n \<and> \<not> src_exists scenario_source p \<and>
                  prune_reaches quiet scenario_source [''dest''] rc p \<and> \<not> S_ISLNK (st_mode (lst n)) \<and>
                  \<not> dst_lstat_fails quiet p \<and> \<not> dst_relative_fails quiet p \<and> \<not> remove_fails quiet p \<longrightarrow>
                  map_of (dst (projr scenario_run)) p = None"
    "\<forall>p n. map_of (dst rc) p = Some n \<and> src_exists scenario_source p \<longrightarrow>
                  map_of (dst (projr scenario_run)) p = Some n"
    unfolding scenario_run_def by auto
  have d1: "d1 = scenario_destination" using a(1) e by simp
  have "copy_from_source quiet [''source_base''] [''dest''] scenario_source
               (start scenario_destination) = Inr rc"
    using a(2) unfolding d1 .
  from trans [OF sym [OF c] this] have rc: "rc = ?rc" by (simp only: sum.inject)
  show ?thesis
    using a(3) [rule_format, of "[''extra.txt'']" "ex_reg 24 3 3"]
      a(4) [rule_format, of "[''dirA'', ''file2.txt'']" "ex_reg 23 5 10"] 1 2 scenario_run_Inr
    unfolding rc by simp
qed

text \<open>
  As the specification words it, the property fails on a symbolic link that only the destination has:
  the prune stage passes it over, and it is still there after the run.
\<close>

theorem extraneous_symlink_survives_prune:
  "stray_run = Inr (projr stray_run) \<and>
   map_of stray_destination [''ln''] = Some (ex_lnk 48 None) \<and>
   \<not> src_exists replace_source [''ln''] \<and>
   map_of (dst (projr stray_run)) [''ln''] = Some (ex_lnk 48 None)"
proof -
  have "\<not> isl stray_run" by code_simp
  then have "stray_run = Inr (projr stray_run)" by (cases stray_run) auto
  moreover have "map_of stray_destination [''ln''] = Some (ex_lnk 48 None)" by code_simp
  moreover have "\<not> src_exists replace_source [''ln'']" by code_simp
  moreover have "map_of (dst (projr stray_run)) [''ln''] = Some (ex_lnk 48 None)" by code_simp
  ultimately show ?thesis by simp
qed

section \<open>Symbolic links\<close>






section \<open>A second run\<close>

subsection \<open>Warnings only accumulate\<close>








subsection \<open>No dangling link appears\<close>

lemma no_dangling_append [simp]:
  "no_dangling (d @ [(p, n)]) \<longleftrightarrow> no_dangling d \<and> \<not> dangling n"
  by (simp add: no_dangling_def)



lemma not_dangling_new_dir [simp]: "\<not> dangling (new_dir E p)"
  by (simp add: dangling_def new_dir_def S_ISDIR_not_LNK)








subsection \<open>The first run settles every entry\<close>


lemma obj_is_directory_new_dir [simp]: "obj_is_directory (new_dir E p)"
  by (simp add: obj_is_directory_def follow_def new_dir_def S_ISDIR_not_LNK)















declare copy_tree_ok.simps [simp del]


subsection \<open>Source entries exist in the source\<close>




subsection \<open>A run over settled entries changes nothing\<close>


lemma pass_simps [simp]:
  "dst (pass es r) = dst r" "cerr (pass es r) = cerr r"
  "files_copied (stats (pass es r)) = files_copied (stats r)"
  "directories_created (stats (pass es r)) = directories_created (stats r)"
  "files_deleted (stats (pass es r)) = files_deleted (stats r)"
  "synced_entries (stats (pass es r)) = synced_entries (stats r)"
  "files_skipped (stats (pass es r)) =
     files_skipped (stats r) + length (filter (\<lambda>e. \<not> S_ISDIR (st_mode (lst (snd e)))) es)"
  by (induction es arbitrary: r) simp_all



subsection \<open>Nothing is left to prune\<close>





subsection \<open>The two runs\<close>








end
